theory Spec2Isabelle
  imports Complex_Main "HOL-Library.Word"
begin

section \<open>Data model of src/game/Combat/ThreatManager.cpp\<close>

text \<open>
  Conventions of the embedding.
  \<^item> A \<^verbatim>\<open>Unit*\<close> is a natural number, the unit's identity; the unit's ObjectGuid is
    identified with it. A possibly null \<^verbatim>\<open>Unit*\<close> is a \<open>nat option\<close>.
  \<^item> A \<^verbatim>\<open>HostileReference*\<close> is a natural number, an address of the store \<open>refs\<close>
    of the manager; a possibly null one is a \<open>nat option\<close>.
  \<^item> A \<^verbatim>\<open>float\<close> is a \<open>real\<close>: threat arithmetic is exact in the model, the
    constants \<^verbatim>\<open>1.1f\<close> and \<^verbatim>\<open>1.3f\<close> are 11/10 and 13/10.
  \<^item> Everything the file asks of the surrounding game (the owner, predicates on units,
    the aura system) is a field of the record \<open>World\<close>, fixed during one call.
\<close>

datatype error = AssertFailed | NullDereference

text \<open>Modelled from the spec: the enum declarations of ThreatManager.h are missing.
  Hostile states are NORMAL and SUPPRESSED, NORMAL outranking SUPPRESSED; taunt states
  are unsigned numbers (the source builds them with \<^verbatim>\<open>TauntState(state++)\<close>), ordered
  DETAUNTED < NONE < TAUNTED, TAUNTED + 1, ... < FIXATED.\<close>

datatype HostileState = STATE_SUPPRESSED | STATE_NORMAL

fun hostile_rank :: "HostileState \<Rightarrow> nat" where
  "hostile_rank STATE_SUPPRESSED = 0"
| "hostile_rank STATE_NORMAL = 1"

definition STATE_DETAUNTED :: nat where "STATE_DETAUNTED = 0"
definition STATE_NONE :: nat where "STATE_NONE = 1"
definition STATE_TAUNTED :: nat where "STATE_TAUNTED = 2"
definition STATE_FIXATED :: nat where "STATE_FIXATED = 4294967295"

record HostileReference =
  iThreat :: real
  iFadeoutThreadReduction :: real
  iUnitGuid :: nat
  iRefTo :: "nat option"
  iRefFrom :: bool
  m_online :: bool
  m_suppresabilityToggle :: bool
  iAccessible :: bool
  m_hostileState :: HostileState
  m_tauntState :: nat

text \<open>\<open>iRefTo\<close> is \<^verbatim>\<open>getTarget()\<close>; \<open>iRefFrom\<close> tells whether \<^verbatim>\<open>getSource()\<close> is
  the manager (True) or null (False).\<close>

record World =
  getOwner :: nat
  ownerIsPlayer :: bool
  ownerIsAlive :: bool
  ownerIsInWorld :: bool
  CanHaveThreatList :: bool
  IsIgnoringRangedTargets :: bool
  IsIgnoringMisdirection :: bool
  CanReachWithMeleeAttack :: "nat option \<Rightarrow> bool"
  CanAttack :: "nat \<Rightarrow> bool"
  IsOfflineTarget :: "nat \<Rightarrow> bool"
  IsSuppressedTarget :: "nat option \<Rightarrow> bool"
  IsInMap :: "nat \<Rightarrow> bool"
  GetUnit :: "nat \<Rightarrow> nat option"
  IsPlayer :: "nat \<Rightarrow> bool"
  IsAlive :: "nat \<Rightarrow> bool"
  IsGameMaster :: "nat \<Rightarrow> bool"
  GetNoThreatState :: "nat \<Rightarrow> bool"
  IsSupportThreatOnly :: "nat \<Rightarrow> bool"
  GetThreatRedirectionTarget :: "nat \<Rightarrow> nat option"
  GetMaster :: "nat \<Rightarrow> nat option"
  IsPropagatingThreatToOwner :: "nat \<Rightarrow> bool"
  CanJoinInAttacking :: "nat \<Rightarrow> bool"
  HasDetauntAura :: "nat \<Rightarrow> bool"
  tauntAuraCasters :: "nat list"
  GetDistance :: "nat \<Rightarrow> real"
  GetSpellModOwner :: "nat \<Rightarrow> nat option"
  ApplySpellMod :: "nat \<Rightarrow> nat \<Rightarrow> real \<Rightarrow> real"
  CriticalThreatMultiplier :: "nat \<Rightarrow> nat \<Rightarrow> real"
  ApplyTotalThreatModifier :: "nat \<Rightarrow> real \<Rightarrow> nat \<Rightarrow> real"

section \<open>ThreatContainer::selectNextVictim\<close>

text \<open>The scan of the threat list, one equation per iteration of the \<^verbatim>\<open>for\<close> loop.
  \<open>h\<close> is the store of references, \<open>cvm\<close> the flag \<^verbatim>\<open>currentVictimInMelee\<close>.
  Leaving the loop with \<^verbatim>\<open>found\<close> set returns \<^verbatim>\<open>currentRef\<close>; exhausting the list
  returns null. \<^verbatim>\<open>MANGOS_ASSERT(target)\<close> aborts on a reference without target.\<close>

fun selectNextVictim_loop ::
  "World \<Rightarrow> (nat \<Rightarrow> HostileReference) \<Rightarrow> bool \<Rightarrow> nat option \<Rightarrow> nat list \<Rightarrow> error + nat option"
where
  "selectNextVictim_loop w h cvm currentVictim [] = Inr None"
| "selectNextVictim_loop w h cvm currentVictim (currentRef # rest) =
    (case iRefTo (h currentRef) of
       None \<Rightarrow> Inl AssertFailed
     | Some target \<Rightarrow>
        (let isInMelee = CanReachWithMeleeAttack w (Some target) in
         case currentVictim of
           None \<Rightarrow>
             if \<not> IsIgnoringRangedTargets w \<or> isInMelee then Inr (Some currentRef)
             else selectNextVictim_loop w h cvm currentVictim rest
         | Some v \<Rightarrow>
             if v = currentRef then
               (if IsIgnoringRangedTargets w \<and> \<not> cvm
                then selectNextVictim_loop w h cvm currentVictim rest
                else Inr (Some currentRef))
             else if m_tauntState (h currentRef) > m_tauntState (h v) then Inr (Some currentRef)
             else if IsPlayer w target \<and> iRefTo (h v) = None then Inl NullDereference
             else if IsPlayer w target \<and> \<not> IsPlayer w (the (iRefTo (h v))) then Inr (Some currentRef)
             else if IsIgnoringRangedTargets w \<and> \<not> isInMelee
               then selectNextVictim_loop w h cvm currentVictim rest
             else if IsIgnoringRangedTargets w \<and> \<not> cvm then Inr (Some currentRef)
             else if hostile_rank (m_hostileState (h currentRef)) > hostile_rank (m_hostileState (h v))
               then Inr (Some currentRef)
             else if iThreat (h currentRef) \<le> 11 / 10 * iThreat (h v) then Inr (Some v)
             else if iThreat (h currentRef) > 13 / 10 * iThreat (h v) \<or>
                     (iThreat (h currentRef) > 11 / 10 * iThreat (h v) \<and> isInMelee)
               then Inr (Some currentRef)
             else selectNextVictim_loop w h cvm currentVictim rest))"

definition selectNextVictim ::
  "World \<Rightarrow> (nat \<Rightarrow> HostileReference) \<Rightarrow> nat list \<Rightarrow> nat option \<Rightarrow> error + nat option"
where
  "selectNextVictim w h threatList currentVictim =
    (let suppressRanged = IsIgnoringRangedTargets w;
         currentVictimInMelee =
           (case currentVictim of
              Some v \<Rightarrow> if suppressRanged then CanReachWithMeleeAttack w (iRefTo (h v)) else True
            | None \<Rightarrow> True)
     in selectNextVictim_loop w h currentVictimInMelee currentVictim threatList)"

section \<open>The manager's state\<close>

text \<open>What the owner sends to observers and the hooks it triggers, in order.\<close>

datatype Packet =
    HeituClearThreatList
  | HeituChangeCurrentVictim nat
  | HeituRemoveFromThreatList nat
  | AggroLinkingEvent nat

text \<open>One ThreatManager: the store of HostileReference objects with the list of live
  addresses (\<^verbatim>\<open>new\<close> adds one, \<^verbatim>\<open>delete\<close> removes it), the two containers
  (\<open>iThreatList\<close> and \<open>iDirty\<close> of \<^verbatim>\<open>iThreatContainer\<close>, the list of
  \<^verbatim>\<open>iThreatOfflineContainer\<close>), the current victim, the timer and the packets sent.\<close>

record ThreatManager =
  refs :: "nat \<Rightarrow> HostileReference"
  allocated :: "nat list"
  iThreatList :: "nat list"
  iDirty :: bool
  offlineThreatList :: "nat list"
  iCurrentVictim :: "nat option"
  iUpdateTimer :: "32 word"
  sent :: "Packet list"

datatype ThreatRefStatusChangeEvent =
    UEV_THREAT_REF_THREAT_CHANGE nat real
  | UEV_THREAT_REF_ONLINE_STATUS nat
  | UEV_THREAT_REF_ASSECCIBLE_STATUS nat
  | UEV_THREAT_REF_SUPPRESSED_STATUS nat
  | UEV_THREAT_REF_REMOVE_FROM_LIST nat

fun getReference :: "ThreatRefStatusChangeEvent \<Rightarrow> nat" where
  "getReference (UEV_THREAT_REF_THREAT_CHANGE p f) = p"
| "getReference (UEV_THREAT_REF_ONLINE_STATUS p) = p"
| "getReference (UEV_THREAT_REF_ASSECCIBLE_STATUS p) = p"
| "getReference (UEV_THREAT_REF_SUPPRESSED_STATUS p) = p"
| "getReference (UEV_THREAT_REF_REMOVE_FROM_LIST p) = p"

definition upd_ref ::
  "nat \<Rightarrow> (HostileReference \<Rightarrow> HostileReference) \<Rightarrow> ThreatManager \<Rightarrow> ThreatManager" where
  "upd_ref p f s = s\<lparr>refs := (refs s)(p := f (refs s p))\<rparr>"

definition send :: "Packet \<Rightarrow> ThreatManager \<Rightarrow> ThreatManager" where
  "send pkt s = s\<lparr>sent := sent s @ [pkt]\<rparr>"

text \<open>Modelled from the spec: the inline members of ThreatManager.h are missing.
  \<^verbatim>\<open>setDirty\<close> sets the dirty flag of the reachable set; \<^verbatim>\<open>remove\<close> takes a reference
  out of a set and \<^verbatim>\<open>addReference\<close> inserts it (at the end of the list);
  \<^verbatim>\<open>isThreatListEmpty\<close> tells whether the reachable set is empty.\<close>

definition setDirty :: "bool \<Rightarrow> ThreatManager \<Rightarrow> ThreatManager" where
  "setDirty d s = s\<lparr>iDirty := d\<rparr>"

definition online_remove :: "nat \<Rightarrow> ThreatManager \<Rightarrow> ThreatManager" where
  "online_remove p s = s\<lparr>iThreatList := removeAll p (iThreatList s)\<rparr>"

definition online_addReference :: "nat \<Rightarrow> ThreatManager \<Rightarrow> ThreatManager" where
  "online_addReference p s = s\<lparr>iThreatList := iThreatList s @ [p]\<rparr>"

definition offline_remove :: "nat \<Rightarrow> ThreatManager \<Rightarrow> ThreatManager" where
  "offline_remove p s = s\<lparr>offlineThreatList := removeAll p (offlineThreatList s)\<rparr>"

definition offline_addReference :: "nat \<Rightarrow> ThreatManager \<Rightarrow> ThreatManager" where
  "offline_addReference p s = s\<lparr>offlineThreatList := offlineThreatList s @ [p]\<rparr>"

definition isThreatListEmpty :: "ThreatManager \<Rightarrow> bool" where
  "isThreatListEmpty s = (iThreatList s = [])"

text \<open>\<^verbatim>\<open>THREAT_UPDATE_INTERVAL\<close> is \<^verbatim>\<open>2 * IN_MILLISECONDS\<close>; the constant
  \<^verbatim>\<open>IN_MILLISECONDS\<close> is declared outside the file and is a parameter here.\<close>

definition THREAT_UPDATE_INTERVAL :: "32 word \<Rightarrow> 32 word" where
  "THREAT_UPDATE_INTERVAL IN_MILLISECONDS = 2 * IN_MILLISECONDS"

definition setCurrentVictim :: "nat option \<Rightarrow> ThreatManager \<Rightarrow> ThreatManager" where
  "setCurrentVictim hostileReference s =
    (let s1 = (case hostileReference of
                 Some p \<Rightarrow> if hostileReference \<noteq> iCurrentVictim s
                            then send (HeituChangeCurrentVictim p) s else s
               | None \<Rightarrow> s)
     in s1\<lparr>iCurrentVictim := hostileReference\<rparr>)"

section \<open>HostileReference::SetHostileState and ThreatManager::ClearSuppressed\<close>

text \<open>\<^verbatim>\<open>SetHostileState\<close> fires \<^verbatim>\<open>UEV_THREAT_REF_SUPPRESSED_STATUS\<close>, whose handler runs
  \<^verbatim>\<open>ClearSuppressed\<close>, which calls \<^verbatim>\<open>SetHostileState\<close> on other references: the two
  are mutually recursive. \<open>ClearSuppressed_loop\<close> is the range-for over the threat list
  (the handler never changes the list itself). The firing inside \<open>SetHostileState\<close> is
  \<^verbatim>\<open>fireStatusChanged\<close> followed by the handler's case for that event, see
  \<open>SetHostileState_fires\<close> below.\<close>

function (domintros)
  SetHostileState :: "World \<Rightarrow> nat \<Rightarrow> HostileState \<Rightarrow> ThreatManager \<Rightarrow> ThreatManager"
  and ClearSuppressed_loop :: "World \<Rightarrow> nat \<Rightarrow> nat list \<Rightarrow> ThreatManager \<Rightarrow> ThreatManager"
where
  "SetHostileState w p state s =
    (let s2 =
       (if m_hostileState (refs s p) \<noteq> state then
          (let s1 = upd_ref p (\<lambda>r. r\<lparr>m_hostileState := state\<rparr>) s in
           if iRefFrom (refs s1 p)
           then setDirty True (ClearSuppressed_loop w p (iThreatList s1) s1)
           else s1)
        else s)
     in upd_ref p (\<lambda>r. r\<lparr>m_suppresabilityToggle := False\<rparr>) s2)"
| "ClearSuppressed_loop w except [] s = s"
| "ClearSuppressed_loop w except (curRef # rest) s =
    (if m_hostileState (refs s curRef) = STATE_SUPPRESSED \<and> curRef \<noteq> except \<and>
        \<not> IsSuppressedTarget w (iRefTo (refs s curRef))
     then ClearSuppressed_loop w except rest (SetHostileState w curRef STATE_NORMAL s)
     else ClearSuppressed_loop w except rest s)"
  by pat_completeness auto

text \<open>Termination: every firing call of \<open>SetHostileState\<close> made by the loop turns a
  suppressed reference into a normal one, and nothing in the recursion suppresses a
  reference again.\<close>

definition suppressed_in :: "ThreatManager \<Rightarrow> nat set \<Rightarrow> nat set" where
  "suppressed_in s X = {q \<in> X. m_hostileState (refs s q) = STATE_SUPPRESSED}"

definition suppressed_count :: "ThreatManager \<Rightarrow> nat list \<Rightarrow> nat" where
  "suppressed_count s xs = card (suppressed_in s (set (iThreatList s) \<union> set xs))"

definition clear_measure1 ::
  "World \<times> nat \<times> HostileState \<times> ThreatManager + World \<times> nat \<times> nat list \<times> ThreatManager \<Rightarrow> nat" where
  "clear_measure1 x = (case x of
      Inl (w, p, state, s) \<Rightarrow>
        suppressed_count (upd_ref p (\<lambda>r. r\<lparr>m_hostileState := state\<rparr>) s) [p] + 1
    | Inr (w, except, xs, s) \<Rightarrow> suppressed_count s xs)"

definition clear_measure2 ::
  "World \<times> nat \<times> HostileState \<times> ThreatManager + World \<times> nat \<times> nat list \<times> ThreatManager \<Rightarrow> nat" where
  "clear_measure2 x = (case x of Inl _ \<Rightarrow> 0 | Inr (w, except, xs, s) \<Rightarrow> length xs + 1)"

lemma SetHostileState_ClearSuppressed_loop_keeps:
  "SetHostileState_ClearSuppressed_loop_dom (Inl (w, p, state, s)) \<Longrightarrow>
     iThreatList (SetHostileState w p state s) = iThreatList s \<and>
     (\<forall>q. m_hostileState (refs (SetHostileState w p state s) q) = STATE_SUPPRESSED \<longrightarrow>
          (q = p \<and> state = STATE_SUPPRESSED) \<or> m_hostileState (refs s q) = STATE_SUPPRESSED)"
  "SetHostileState_ClearSuppressed_loop_dom (Inr (w, except, xs, s)) \<Longrightarrow>
     iThreatList (ClearSuppressed_loop w except xs s) = iThreatList s \<and>
     (\<forall>q. m_hostileState (refs (ClearSuppressed_loop w except xs s) q) = STATE_SUPPRESSED \<longrightarrow>
          m_hostileState (refs s q) = STATE_SUPPRESSED)"
proof (induct rule: SetHostileState_ClearSuppressed_loop.pinduct)
  case (1 w p state s)
  let ?s1 = "upd_ref p (\<lambda>r. r\<lparr>m_hostileState := state\<rparr>) s"
  let ?c = "ClearSuppressed_loop w p (iThreatList ?s1) ?s1"
  have s1: "iThreatList ?s1 = iThreatList s"
    "\<And>q. m_hostileState (refs ?s1 q) = STATE_SUPPRESSED \<Longrightarrow>
       (q = p \<and> state = STATE_SUPPRESSED) \<or> m_hostileState (refs s q) = STATE_SUPPRESSED"
    by (simp_all add: upd_ref_def split: if_splits)
  have tog: "\<And>t. iThreatList (upd_ref p (\<lambda>r. r\<lparr>m_suppresabilityToggle := False\<rparr>) t) = iThreatList t"
    "\<And>t q. m_hostileState (refs (upd_ref p (\<lambda>r. r\<lparr>m_suppresabilityToggle := False\<rparr>) t) q) =
       m_hostileState (refs t q)"
    by (simp_all add: upd_ref_def)
  show ?case
  proof (cases "m_hostileState (refs s p) \<noteq> state \<and> iRefFrom (refs ?s1 p)")
    case True
    then have eq: "SetHostileState w p state s =
        upd_ref p (\<lambda>r. r\<lparr>m_suppresabilityToggle := False\<rparr>) (setDirty True ?c)"
      using "1.hyps"(1) by (simp add: SetHostileState.psimps Let_def)
    have ih: "iThreatList ?c = iThreatList ?s1"
      "\<And>q. m_hostileState (refs ?c q) = STATE_SUPPRESSED \<Longrightarrow>
          m_hostileState (refs ?s1 q) = STATE_SUPPRESSED"
      using "1.hyps"(2) [of ?s1] True by simp_all
    have d: "iThreatList (setDirty True ?c) = iThreatList ?c"
      "\<And>q. m_hostileState (refs (setDirty True ?c) q) = m_hostileState (refs ?c q)"
      by (simp_all add: setDirty_def)
    show ?thesis
      unfolding eq tog d using ih s1 by metis
  next
    case False
    then consider "m_hostileState (refs s p) = state" | "m_hostileState (refs s p) \<noteq> state" "\<not> iRefFrom (refs ?s1 p)"
      by blast
    then show ?thesis
    proof cases
      case 1
      then have eq: "SetHostileState w p state s =
          upd_ref p (\<lambda>r. r\<lparr>m_suppresabilityToggle := False\<rparr>) s"
        using "1.hyps"(1) by (simp add: SetHostileState.psimps Let_def)
      show ?thesis unfolding eq tog by simp
    next
      case 2
      then have eq: "SetHostileState w p state s =
          upd_ref p (\<lambda>r. r\<lparr>m_suppresabilityToggle := False\<rparr>) ?s1"
        using "1.hyps"(1) by (simp add: SetHostileState.psimps Let_def)
      show ?thesis unfolding eq tog using s1 by metis
    qed
  qed
next
  case (2 w except s)
  then show ?case by (simp add: ClearSuppressed_loop.psimps)
next
  case (3 w except curRef rest s)
  show ?case
  proof (cases "m_hostileState (refs s curRef) = STATE_SUPPRESSED \<and> curRef \<noteq> except \<and>
        \<not> IsSuppressedTarget w (iRefTo (refs s curRef))")
    case True
    then have eq: "ClearSuppressed_loop w except (curRef # rest) s =
        ClearSuppressed_loop w except rest (SetHostileState w curRef STATE_NORMAL s)"
      using "3.hyps"(1) by (simp add: ClearSuppressed_loop.psimps)
    show ?thesis
      unfolding eq using "3.hyps"(2) [OF True] "3.hyps"(3) [OF True] by auto
  next
    case False
    then have eq: "ClearSuppressed_loop w except (curRef # rest) s =
        ClearSuppressed_loop w except rest s"
      using "3.hyps"(1) by (auto simp add: ClearSuppressed_loop.psimps)
    show ?thesis
      unfolding eq using "3.hyps"(4) [OF False] by auto
  qed
qed

lemma suppressed_count_mono:
  assumes "iThreatList s' = iThreatList s" and "set ys \<subseteq> set (iThreatList s) \<union> set xs"
    and "\<And>q. m_hostileState (refs s' q) = STATE_SUPPRESSED \<Longrightarrow> m_hostileState (refs s q) = STATE_SUPPRESSED"
  shows "suppressed_count s' ys \<le> suppressed_count s xs"
  unfolding suppressed_count_def suppressed_in_def
  by (rule card_mono) (use assms in auto)

lemma suppressed_count_drop:
  assumes "m_hostileState (refs s c) = STATE_SUPPRESSED"
  shows "suppressed_count (upd_ref c (\<lambda>r. r\<lparr>m_hostileState := STATE_NORMAL\<rparr>) s) [c] + 1
           \<le> suppressed_count s (c # rest)"
proof -
  let ?A = "suppressed_in (upd_ref c (\<lambda>r. r\<lparr>m_hostileState := STATE_NORMAL\<rparr>) s)
              (set (iThreatList s) \<union> {c})"
  let ?B = "suppressed_in s (set (iThreatList s) \<union> set (c # rest))"
  have fin: "finite ?B" by (simp add: suppressed_in_def)
  have "?A \<subseteq> ?B - {c}" by (auto simp: suppressed_in_def upd_ref_def)
  then have "card ?A \<le> card (?B - {c})" using fin by (intro card_mono) auto
  moreover have "c \<in> ?B" using assms by (simp add: suppressed_in_def)
  then have "card (?B - {c}) + 1 = card ?B" using fin
    by (simp add: card_Diff_singleton card_gt_0_iff) (metis card_gt_0_iff empty_iff Suc_pred)
  ultimately show ?thesis by (simp add: suppressed_count_def upd_ref_def)
qed

termination SetHostileState
proof (relation "measures [clear_measure1, clear_measure2]", goal_cases)
  case 1
  show ?case by simp
next
  case (2 w p state s x)
  have "suppressed_count x (iThreatList x) \<le> suppressed_count x [p]"
    by (rule suppressed_count_mono) auto
  then show ?case using 2 by (simp add: clear_measure1_def)
next
  case (3 w except curRef rest s)
  then show ?case
    using suppressed_count_drop [of s curRef rest]
    by (auto simp: clear_measure1_def clear_measure2_def)
next
  case (4 w except curRef rest s)
  have "suppressed_count (SetHostileState w curRef STATE_NORMAL s) rest \<le> suppressed_count s (curRef # rest)"
    using 4 SetHostileState_ClearSuppressed_loop_keeps(1) [of w curRef STATE_NORMAL s]
    by (intro suppressed_count_mono) auto
  then show ?case by (auto simp: clear_measure1_def clear_measure2_def)
next
  case (5 w except curRef rest s)
  have "suppressed_count s rest \<le> suppressed_count s (curRef # rest)"
    by (rule suppressed_count_mono) auto
  then show ?case by (auto simp: clear_measure1_def clear_measure2_def)
qed

declare SetHostileState.simps [simp del]

definition ClearSuppressed :: "World \<Rightarrow> nat \<Rightarrow> ThreatManager \<Rightarrow> ThreatManager" where
  "ClearSuppressed w except s = ClearSuppressed_loop w except (iThreatList s) s"

section \<open>ThreatManager::processThreatEvent\<close>

definition processThreatEvent ::
  "World \<Rightarrow> ThreatRefStatusChangeEvent \<Rightarrow> ThreatManager \<Rightarrow> ThreatManager" where
  "processThreatEvent w ev s =
    (case ev of
       UEV_THREAT_REF_THREAT_CHANGE hostileReference fvalue \<Rightarrow>
         if (iCurrentVictim s = Some hostileReference \<and> fvalue < 0) \<or>
            (iCurrentVictim s \<noteq> Some hostileReference \<and> fvalue > 0)
         then setDirty True s else s
     | UEV_THREAT_REF_ONLINE_STATUS hostileReference \<Rightarrow>
         if \<not> m_online (refs s hostileReference) then
           (let s1 = (if Some hostileReference = iCurrentVictim s
                      then setDirty True (setCurrentVictim None s) else s);
                s2 = (if ownerIsInWorld w then
                        (case GetUnit w (iUnitGuid (refs s1 hostileReference)) of
                           Some target \<Rightarrow>
                             if IsInMap w target
                             then send (HeituRemoveFromThreatList hostileReference) s1 else s1
                         | None \<Rightarrow> s1)
                      else s1)
            in offline_addReference hostileReference (online_remove hostileReference s2))
         else
           (let s1 = (case iCurrentVictim s of
                        Some v \<Rightarrow>
                          if iThreat (refs s hostileReference) > 11 / 10 * iThreat (refs s v)
                          then setDirty True s else s
                      | None \<Rightarrow> s)
            in offline_remove hostileReference (online_addReference hostileReference s1))
     | UEV_THREAT_REF_REMOVE_FROM_LIST hostileReference \<Rightarrow>
         (let s1 = (if Some hostileReference = iCurrentVictim s
                    then setDirty True (setCurrentVictim None s) else s);
              s2 = send (HeituRemoveFromThreatList hostileReference) s1
          in if m_online (refs s2 hostileReference)
             then online_remove hostileReference s2
             else offline_remove hostileReference s2)
     | UEV_THREAT_REF_SUPPRESSED_STATUS hostileReference \<Rightarrow>
         setDirty True (ClearSuppressed w hostileReference s)
     | UEV_THREAT_REF_ASSECCIBLE_STATUS hostileReference \<Rightarrow> s)"

definition fireStatusChanged ::
  "World \<Rightarrow> ThreatRefStatusChangeEvent \<Rightarrow> ThreatManager \<Rightarrow> ThreatManager" where
  "fireStatusChanged w ev s =
    (if iRefFrom (refs s (getReference ev)) then processThreatEvent w ev s else s)"

section \<open>HostileReference\<close>

definition HostileReference_addThreat :: "World \<Rightarrow> nat \<Rightarrow> real \<Rightarrow> ThreatManager \<Rightarrow> ThreatManager" where
  "HostileReference_addThreat w p mod0 s =
    (let mod1 = (if mod0 + iThreat (refs s p) < 0 then - iThreat (refs s p) else mod0);
         s1 = upd_ref p (\<lambda>r. r\<lparr>iThreat := iThreat r + mod1\<rparr>) s;
         s2 = (if m_suppresabilityToggle (refs s1 p) \<and> mod1 \<noteq> 0
               then SetHostileState w p STATE_NORMAL s1 else s1)
     in if mod1 \<noteq> 0 then fireStatusChanged w (UEV_THREAT_REF_THREAT_CHANGE p mod1) s2 else s2)"

definition setOnlineOfflineState :: "World \<Rightarrow> nat \<Rightarrow> bool \<Rightarrow> ThreatManager \<Rightarrow> ThreatManager" where
  "setOnlineOfflineState w p isOnline s =
    (if m_online (refs s p) \<noteq> isOnline
     then fireStatusChanged w (UEV_THREAT_REF_ONLINE_STATUS p)
            (upd_ref p (\<lambda>r. r\<lparr>m_online := isOnline\<rparr>) s)
     else s)"

definition setAccessibleState :: "World \<Rightarrow> nat \<Rightarrow> bool \<Rightarrow> ThreatManager \<Rightarrow> ThreatManager" where
  "setAccessibleState w p isAccessible s =
    (if iAccessible (refs s p) \<noteq> isAccessible
     then fireStatusChanged w (UEV_THREAT_REF_ASSECCIBLE_STATUS p)
            (upd_ref p (\<lambda>r. r\<lparr>iAccessible := isAccessible\<rparr>) s)
     else s)"

definition sourceObjectDestroyLink :: "World \<Rightarrow> nat \<Rightarrow> ThreatManager \<Rightarrow> ThreatManager" where
  "sourceObjectDestroyLink w p s = setOnlineOfflineState w p False s"

text \<open>Modelled from the spec: the Reference base class (\<^verbatim>\<open>link\<close>, \<^verbatim>\<open>unlink\<close>,
  \<^verbatim>\<open>invalidate\<close>, \<^verbatim>\<open>isValid\<close>) and the inline members of HostileReference
  (\<^verbatim>\<open>addThreatPercent\<close>, \<^verbatim>\<open>SetTauntState\<close>, \<^verbatim>\<open>SetSuppressabilityToggle\<close>) are missing.
  A reference is valid when it has a target; \<^verbatim>\<open>invalidate\<close> severs the link to the target,
  \<^verbatim>\<open>link\<close> sets it, \<^verbatim>\<open>unlink\<close> severs both links; \<^verbatim>\<open>addThreatPercent(pct)\<close> scales the
  value by (1 + pct/100), adding value * pct / 100 through \<^verbatim>\<open>addThreat\<close>.\<close>

definition isValid :: "HostileReference \<Rightarrow> bool" where
  "isValid r = (iRefTo r \<noteq> None)"

definition invalidate :: "nat \<Rightarrow> ThreatManager \<Rightarrow> ThreatManager" where
  "invalidate p s = upd_ref p (\<lambda>r. r\<lparr>iRefTo := None\<rparr>) s"

definition link :: "nat \<Rightarrow> nat \<Rightarrow> ThreatManager \<Rightarrow> ThreatManager" where
  "link p target s = upd_ref p (\<lambda>r. r\<lparr>iRefTo := Some target, iRefFrom := True\<rparr>) s"

definition unlink :: "nat \<Rightarrow> ThreatManager \<Rightarrow> ThreatManager" where
  "unlink p s = upd_ref p (\<lambda>r. r\<lparr>iRefTo := None, iRefFrom := False\<rparr>) s"

definition addThreatPercent :: "World \<Rightarrow> nat \<Rightarrow> int \<Rightarrow> ThreatManager \<Rightarrow> ThreatManager" where
  "addThreatPercent w p threatPercent s =
    HostileReference_addThreat w p (iThreat (refs s p) * real_of_int threatPercent / 100) s"

definition SetTauntState :: "nat \<Rightarrow> nat \<Rightarrow> ThreatManager \<Rightarrow> ThreatManager" where
  "SetTauntState p state s = upd_ref p (\<lambda>r. r\<lparr>m_tauntState := state\<rparr>) s"

definition SetSuppressabilityToggle :: "nat \<Rightarrow> ThreatManager \<Rightarrow> ThreatManager" where
  "SetSuppressabilityToggle p s = upd_ref p (\<lambda>r. r\<lparr>m_suppresabilityToggle := True\<rparr>) s"

text \<open>\<^verbatim>\<open>delete ref\<close>: the address is no longer live.\<close>

definition delete_ref :: "nat \<Rightarrow> ThreatManager \<Rightarrow> ThreatManager" where
  "delete_ref p s = s\<lparr>allocated := removeAll p (allocated s)\<rparr>"

definition removeReference :: "World \<Rightarrow> nat \<Rightarrow> ThreatManager \<Rightarrow> ThreatManager" where
  "removeReference w p s = fireStatusChanged w (UEV_THREAT_REF_REMOVE_FROM_LIST p) (invalidate p s)"

text \<open>\<^verbatim>\<open>updateOnlineStatus\<close> calls \<^verbatim>\<open>getSourceUnit()\<close>, which dereferences
  \<^verbatim>\<open>getSource()\<close>, whenever the reference is not valid or has become valid.\<close>

definition updateOnlineStatus :: "World \<Rightarrow> nat \<Rightarrow> ThreatManager \<Rightarrow> error + ThreatManager" where
  "updateOnlineStatus w p s =
    (if \<not> isValid (refs s p) \<and> \<not> iRefFrom (refs s p) then Inl NullDereference
     else
       (let s1 = (if \<not> isValid (refs s p) then
                    (case GetUnit w (iUnitGuid (refs s p)) of
                       Some target \<Rightarrow> link p target s
                     | None \<Rightarrow> s)
                  else s)
        in case iRefTo (refs s1 p) of
             Some target \<Rightarrow>
               if \<not> iRefFrom (refs s1 p) then Inl NullDereference
               else Inr (setOnlineOfflineState w p (\<not> IsOfflineTarget w target) s1)
           | None \<Rightarrow> Inr (setOnlineOfflineState w p False s1)))"

definition setFadeoutThreatReduction :: "World \<Rightarrow> nat \<Rightarrow> real \<Rightarrow> ThreatManager \<Rightarrow> ThreatManager" where
  "setFadeoutThreatReduction w p v s =
    (let s1 = upd_ref p (\<lambda>r. r\<lparr>iFadeoutThreadReduction := v\<rparr>) s
     in HostileReference_addThreat w p (iFadeoutThreadReduction (refs s1 p)) s1)"

definition resetFadeoutThreatReduction :: "World \<Rightarrow> nat \<Rightarrow> ThreatManager \<Rightarrow> ThreatManager" where
  "resetFadeoutThreatReduction w p s =
    (let s1 = HostileReference_addThreat w p (- iFadeoutThreadReduction (refs s p)) s
     in upd_ref p (\<lambda>r. r\<lparr>iFadeoutThreadReduction := 0\<rparr>) s1)"

section \<open>ThreatContainer lookups and ThreatManager queries\<close>

definition getReferenceByTarget ::
  "(nat \<Rightarrow> HostileReference) \<Rightarrow> nat list \<Rightarrow> nat option \<Rightarrow> nat option" where
  "getReferenceByTarget h threatList victim =
    (case victim of
       None \<Rightarrow> None
     | Some guid \<Rightarrow> find (\<lambda>p. iUnitGuid (h p) = guid) threatList)"

text \<open>\<^verbatim>\<open>getThreat\<close>: the last branch calls \<^verbatim>\<open>getThreat()\<close> on the result of the lookup in
  the offline container without testing it.\<close>

definition getThreat :: "ThreatManager \<Rightarrow> nat option \<Rightarrow> bool \<Rightarrow> error + real" where
  "getThreat s victim alsoSearchOfflineList =
    (let ref0 = getReferenceByTarget (refs s) (iThreatList s) victim;
         ref1 = (if ref0 = None \<and> alsoSearchOfflineList
                 then getReferenceByTarget (refs s) (offlineThreatList s) victim else ref0)
     in case ref1 of
          Some p \<Rightarrow> Inr (iThreat (refs s p))
        | None \<Rightarrow>
            if alsoSearchOfflineList then
              (case getReferenceByTarget (refs s) (offlineThreatList s) victim of
                 None \<Rightarrow> Inl NullDereference
               | Some q \<Rightarrow> Inr (iThreat (refs s q)))
            else Inr 0)"

definition HasThreat :: "ThreatManager \<Rightarrow> nat option \<Rightarrow> bool \<Rightarrow> bool" where
  "HasThreat s victim alsoSearchOfflineList =
    (let ref0 = getReferenceByTarget (refs s) (iThreatList s) victim;
         ref1 = (if ref0 = None \<and> alsoSearchOfflineList
                 then getReferenceByTarget (refs s) (offlineThreatList s) victim else ref0)
     in ref1 \<noteq> None)"

definition isNeedUpdateToClient ::
  "32 word \<Rightarrow> 32 word \<Rightarrow> ThreatManager \<Rightarrow> bool \<times> ThreatManager" where
  "isNeedUpdateToClient IN_MILLISECONDS time s =
    (if isThreatListEmpty s then (False, s)
     else if time \<ge> iUpdateTimer s
       then (True, s\<lparr>iUpdateTimer := THREAT_UPDATE_INTERVAL IN_MILLISECONDS\<rparr>)
     else (False, s\<lparr>iUpdateTimer := iUpdateTimer s - time\<rparr>))"

section \<open>Construction and example states\<close>

text \<open>The HostileReference constructor: the record a new reference to \<open>unit\<close> holds.\<close>

definition HostileReference_new :: "nat \<Rightarrow> real \<Rightarrow> HostileReference" where
  "HostileReference_new unit threat =
    \<lparr>iThreat = threat, iFadeoutThreadReduction = 0, iUnitGuid = unit, iRefTo = Some unit,
     iRefFrom = True, m_online = True, m_suppresabilityToggle = False, iAccessible = True,
     m_hostileState = STATE_NORMAL, m_tauntState = STATE_NONE\<rparr>"

text \<open>The ThreatManager constructor: no reference, no victim, the timer at the interval.\<close>

definition ThreatManager_new :: "32 word \<Rightarrow> ThreatManager" where
  "ThreatManager_new IN_MILLISECONDS =
    \<lparr>refs = (\<lambda>_. HostileReference_new 0 0), allocated = [], iThreatList = [], iDirty = False,
     offlineThreatList = [], iCurrentVictim = None,
     iUpdateTimer = THREAT_UPDATE_INTERVAL IN_MILLISECONDS, sent = []\<rparr>"

text \<open>A world for the examples: a creature owner 10, nothing special about any unit.\<close>

definition example_world :: World where
  "example_world =
    \<lparr>getOwner = 10, ownerIsPlayer = False, ownerIsAlive = True, ownerIsInWorld = True,
     CanHaveThreatList = True, IsIgnoringRangedTargets = False, IsIgnoringMisdirection = False,
     CanReachWithMeleeAttack = (\<lambda>_. False), CanAttack = (\<lambda>_. True),
     IsOfflineTarget = (\<lambda>_. False), IsSuppressedTarget = (\<lambda>_. False), IsInMap = (\<lambda>_. True),
     GetUnit = (\<lambda>g. Some g), IsPlayer = (\<lambda>_. False), IsAlive = (\<lambda>_. True),
     IsGameMaster = (\<lambda>_. False), GetNoThreatState = (\<lambda>_. False),
     IsSupportThreatOnly = (\<lambda>_. False), GetThreatRedirectionTarget = (\<lambda>_. None),
     GetMaster = (\<lambda>_. None), IsPropagatingThreatToOwner = (\<lambda>_. False),
     CanJoinInAttacking = (\<lambda>_. False), HasDetauntAura = (\<lambda>_. False),
     tauntAuraCasters = [], GetDistance = (\<lambda>_. 5), GetSpellModOwner = (\<lambda>_. None),
     ApplySpellMod = (\<lambda>_ _ x. x), CriticalThreatMultiplier = (\<lambda>_ _. 1),
     ApplyTotalThreatModifier = (\<lambda>_ x _. x)\<rparr>"

text \<open>A manager tracking unit 11 with threat 100 (reference 4, the current victim) and
  unit 12 with threat 135 (reference 5), both reachable.\<close>

definition example_state :: ThreatManager where
  "example_state =
    \<lparr>refs = (\<lambda>_. HostileReference_new 0 0)
        (4 := HostileReference_new 11 100, 5 := HostileReference_new 12 135),
     allocated = [4, 5], iThreatList = [5, 4], iDirty = False,
     offlineThreatList = [], iCurrentVictim = Some 4,
     iUpdateTimer = 2000, sent = []\<rparr>"

section \<open>What the suppression recursion leaves alone\<close>

definition ref_frame :: "HostileReference \<Rightarrow> HostileReference \<Rightarrow> bool" where
  "ref_frame r r' =
    (iThreat r' = iThreat r \<and> iFadeoutThreadReduction r' = iFadeoutThreadReduction r \<and>
     iUnitGuid r' = iUnitGuid r \<and> iRefTo r' = iRefTo r \<and> iRefFrom r' = iRefFrom r \<and>
     m_online r' = m_online r \<and> iAccessible r' = iAccessible r \<and>
     m_tauntState r' = m_tauntState r)"

definition state_frame :: "ThreatManager \<Rightarrow> ThreatManager \<Rightarrow> bool" where
  "state_frame s s' =
    ((\<forall>q. ref_frame (refs s q) (refs s' q)) \<and> allocated s' = allocated s \<and>
     iThreatList s' = iThreatList s \<and> offlineThreatList s' = offlineThreatList s \<and>
     iCurrentVictim s' = iCurrentVictim s \<and> iUpdateTimer s' = iUpdateTimer s \<and>
     sent s' = sent s)"

lemma state_frame_refl: "state_frame s s"
  by (simp add: state_frame_def ref_frame_def)

lemma state_frame_trans: "state_frame s t \<Longrightarrow> state_frame t u \<Longrightarrow> state_frame s u"
  by (simp add: state_frame_def ref_frame_def)

lemma state_frame_hostile: "state_frame s (upd_ref p (\<lambda>r. r\<lparr>m_hostileState := st\<rparr>) s)"
  by (simp add: state_frame_def ref_frame_def upd_ref_def)

lemma state_frame_toggle: "state_frame s (upd_ref p (\<lambda>r. r\<lparr>m_suppresabilityToggle := b\<rparr>) s)"
  by (simp add: state_frame_def ref_frame_def upd_ref_def)

lemma state_frame_setDirty: "state_frame s (setDirty b s)"
  by (simp add: state_frame_def ref_frame_def setDirty_def)

lemma SetHostileState_ClearSuppressed_loop_frame:
  "state_frame s (SetHostileState w p state s)"
  "state_frame s (ClearSuppressed_loop w except xs s)"
proof (induct w p state s and w except xs s rule: SetHostileState_ClearSuppressed_loop.induct)
  case (1 w p state s)
  let ?s1 = "upd_ref p (\<lambda>r. r\<lparr>m_hostileState := state\<rparr>) s"
  have "state_frame s
     (if m_hostileState (refs s p) \<noteq> state then
        (if iRefFrom (refs ?s1 p)
         then setDirty True (ClearSuppressed_loop w p (iThreatList ?s1) ?s1) else ?s1)
      else s)"
    using 1 [of ?s1]
    by (auto intro: state_frame_refl state_frame_hostile state_frame_trans [OF state_frame_hostile]
        state_frame_trans [OF _ state_frame_setDirty])
  then show ?case
    unfolding SetHostileState.simps [of w p state s] Let_def
    by (rule state_frame_trans [OF _ state_frame_toggle])
next
  case (2 w except s)
  show ?case by (simp add: state_frame_refl)
next
  case (3 w except curRef rest s)
  then show ?case
    by (auto intro: state_frame_trans)
qed

text \<open>The firing written into \<open>SetHostileState\<close> is \<^verbatim>\<open>fireStatusChanged\<close> with the
  handler's case for the event.\<close>

lemma SetHostileState_fires:
  "SetHostileState w p state s =
    upd_ref p (\<lambda>r. r\<lparr>m_suppresabilityToggle := False\<rparr>)
      (if m_hostileState (refs s p) \<noteq> state
       then fireStatusChanged w (UEV_THREAT_REF_SUPPRESSED_STATUS p)
              (upd_ref p (\<lambda>r. r\<lparr>m_hostileState := state\<rparr>) s)
       else s)"
  by (simp add: SetHostileState.simps [of w p state s] Let_def fireStatusChanged_def
      processThreatEvent_def ClearSuppressed_def)

section \<open>HostileReference::addThreat\<close>

definition clamped :: "real \<Rightarrow> real \<Rightarrow> real" where
  "clamped t d = (if d + t < 0 then 0 else t + d)"

lemma fireStatusChanged_THREAT_CHANGE_frame:
  "state_frame s (fireStatusChanged w (UEV_THREAT_REF_THREAT_CHANGE p f) s)"
  by (simp add: fireStatusChanged_def processThreatEvent_def state_frame_setDirty state_frame_refl)

lemma HostileReference_addThreat_frame:
  "state_frame (upd_ref p (\<lambda>r. r\<lparr>iThreat := clamped (iThreat (refs s p)) d\<rparr>) s)
     (HostileReference_addThreat w p d s)"
proof -
  let ?m = "if d + iThreat (refs s p) < 0 then - iThreat (refs s p) else d"
  let ?s1 = "upd_ref p (\<lambda>r. r\<lparr>iThreat := iThreat r + ?m\<rparr>) s"
  let ?s2 = "if m_suppresabilityToggle (refs ?s1 p) \<and> ?m \<noteq> 0
             then SetHostileState w p STATE_NORMAL ?s1 else ?s1"
  have a: "?s1 = upd_ref p (\<lambda>r. r\<lparr>iThreat := clamped (iThreat (refs s p)) d\<rparr>) s"
    by (simp add: upd_ref_def clamped_def)
  have b: "state_frame ?s1 ?s2"
    by (simp add: SetHostileState_ClearSuppressed_loop_frame(1) state_frame_refl)
  have c: "state_frame ?s2
     (if ?m \<noteq> 0 then fireStatusChanged w (UEV_THREAT_REF_THREAT_CHANGE p ?m) ?s2 else ?s2)"
    by (simp add: fireStatusChanged_THREAT_CHANGE_frame state_frame_refl)
  have "HostileReference_addThreat w p d s =
     (if ?m \<noteq> 0 then fireStatusChanged w (UEV_THREAT_REF_THREAT_CHANGE p ?m) ?s2 else ?s2)"
    by (simp add: HostileReference_addThreat_def Let_def)
  then show ?thesis
    using state_frame_trans [OF b c] a by simp
qed

lemma HostileReference_addThreat_iThreat:
  "iThreat (refs (HostileReference_addThreat w p d s) q) =
     (if q = p then clamped (iThreat (refs s p)) d else iThreat (refs s q))"
  using HostileReference_addThreat_frame [of p s d w]
  by (simp add: state_frame_def ref_frame_def upd_ref_def)


text \<open>A sequence of \<^verbatim>\<open>addThreat\<close> calls, each on some reference with some delta.\<close>

fun addThreat_calls :: "World \<Rightarrow> (nat \<times> real) list \<Rightarrow> ThreatManager \<Rightarrow> ThreatManager" where
  "addThreat_calls w [] s = s"
| "addThreat_calls w ((p, d) # calls) s = addThreat_calls w calls (HostileReference_addThreat w p d s)"

lemma clamped_nonneg: "0 \<le> t \<Longrightarrow> 0 \<le> clamped t d"
  by (simp add: clamped_def)

lemma addThreat_calls_nonneg:
  "0 \<le> iThreat (refs s q) \<Longrightarrow> 0 \<le> iThreat (refs (addThreat_calls w calls s) q)"
proof (induction calls arbitrary: s)
  case Nil
  then show ?case by simp
next
  case (Cons c calls)
  obtain p d where c: "c = (p, d)" by (cases c)
  have "0 \<le> iThreat (refs (HostileReference_addThreat w p d s) q)"
    using Cons.prems by (auto simp: HostileReference_addThreat_iThreat clamped_nonneg)
  then show ?case
    using Cons.IH c by simp
qed

text \<open>Claim C6. Whatever deltas a sequence of \<^verbatim>\<open>addThreat\<close> calls applies, to this or to
  other references, a threat value that is not negative stays so; a delta that would take
  the value of the called reference below zero is replaced by minus the value, which
  leaves exactly zero, and any other delta is added as it is.\<close>

theorem addThreat_never_negative:
  assumes "0 \<le> iThreat (refs s q)"
  shows "0 \<le> iThreat (refs (addThreat_calls w calls s) q) \<and>
         iThreat (refs (HostileReference_addThreat w q d s) q) =
           (if d + iThreat (refs s q) < 0 then iThreat (refs s q) + - iThreat (refs s q)
            else iThreat (refs s q) + d) \<and>
         0 \<le> iThreat (refs (HostileReference_addThreat w q d s) q)"
  using assms addThreat_calls_nonneg [of s q w calls]
  by (simp add: HostileReference_addThreat_iThreat clamped_def)

theorem addThreat_never_negative_witness:
  "0 \<le> iThreat (refs example_state 4) \<and>
   0 \<le> iThreat (refs (addThreat_calls example_world [(4, - 500), (5, 7), (4, 3)] example_state) 4) \<and>
   iThreat (refs (HostileReference_addThreat example_world 4 (- 500) example_state) 4) = 0"
proof -
  have h: "0 \<le> iThreat (refs example_state 4)"
    by (simp add: example_state_def HostileReference_new_def)
  have v: "iThreat (refs example_state 4) = 100"
    by (simp add: example_state_def HostileReference_new_def)
  show ?thesis
    using addThreat_never_negative [OF h, of example_world "[(4, - 500), (5, 7), (4, 3)]" "- 500"] h v
    by simp
qed

section \<open>Fadeout: setFadeoutThreatReduction and resetFadeoutThreatReduction\<close>










section \<open>ThreatManager::isNeedUpdateToClient\<close>

text \<open>Claim C10. With an empty reachable set the answer is False and nothing changes,
  whatever the timer. Otherwise the countdown minus the elapsed time, computed without
  wrap-around, decides: at zero or below the timer is reset to the interval and the
  answer is True; above zero the timer holds exactly that difference and the answer is
  False.\<close>

theorem isNeedUpdateToClient_countdown:
  "(iThreatList s = [] \<longrightarrow>
      isNeedUpdateToClient IN_MILLISECONDS time s = (False, s)) \<and>
   (iThreatList s \<noteq> [] \<and> int (unat (iUpdateTimer s)) - int (unat time) \<le> 0 \<longrightarrow>
      isNeedUpdateToClient IN_MILLISECONDS time s =
        (True, s\<lparr>iUpdateTimer := THREAT_UPDATE_INTERVAL IN_MILLISECONDS\<rparr>)) \<and>
   (iThreatList s \<noteq> [] \<and> 0 < int (unat (iUpdateTimer s)) - int (unat time) \<longrightarrow>
      fst (isNeedUpdateToClient IN_MILLISECONDS time s) = False \<and>
      snd (isNeedUpdateToClient IN_MILLISECONDS time s) = s\<lparr>iUpdateTimer := iUpdateTimer s - time\<rparr> \<and>
      int (unat (iUpdateTimer (snd (isNeedUpdateToClient IN_MILLISECONDS time s)))) =
        int (unat (iUpdateTimer s)) - int (unat time))"
proof -
  have le: "time \<ge> iUpdateTimer s \<longleftrightarrow> int (unat (iUpdateTimer s)) - int (unat time) \<le> 0"
    by (simp add: word_le_def)
  have sub: "0 < int (unat (iUpdateTimer s)) - int (unat time) \<Longrightarrow>
      int (unat (iUpdateTimer s - time)) = int (unat (iUpdateTimer s)) - int (unat time)"
  proof -
    assume "0 < int (unat (iUpdateTimer s)) - int (unat time)"
    then have "uint time \<le> uint (iUpdateTimer s)" by simp
    then have "uint (iUpdateTimer s - time) = uint (iUpdateTimer s) - uint time"
      using uint_sub_lem [of time "iUpdateTimer s"] by simp
    then show ?thesis by simp
  qed
  show ?thesis
    using le sub by (auto simp: isNeedUpdateToClient_def isThreatListEmpty_def)
qed

theorem isNeedUpdateToClient_countdown_witness:
  "iThreatList example_state \<noteq> [] \<and>
   isNeedUpdateToClient 1000 2500 example_state = (True, example_state\<lparr>iUpdateTimer := 2000\<rparr>) \<and>
   isNeedUpdateToClient 1000 500 example_state = (False, example_state\<lparr>iUpdateTimer := 1500\<rparr>) \<and>
   isNeedUpdateToClient 1000 2500 (example_state\<lparr>iThreatList := [], iUpdateTimer := 0\<rparr>) =
     (False, example_state\<lparr>iThreatList := [], iUpdateTimer := 0\<rparr>)"
proof -
  have l: "iThreatList example_state \<noteq> []" and tm: "iUpdateTimer example_state = 2000"
    by (simp_all add: example_state_def)
  have a: "int (unat (iUpdateTimer example_state)) - int (unat (2500 :: 32 word)) \<le> 0"
    and b: "0 < int (unat (iUpdateTimer example_state)) - int (unat (500 :: 32 word))"
    by (simp_all add: tm)
  have e: "iThreatList (example_state\<lparr>iThreatList := [], iUpdateTimer := 0\<rparr>) = []"
    by simp
  show ?thesis
    using isNeedUpdateToClient_countdown [of example_state 1000 2500]
      isNeedUpdateToClient_countdown [of example_state 1000 500]
      isNeedUpdateToClient_countdown [of "example_state\<lparr>iThreatList := [], iUpdateTimer := 0\<rparr>" 1000 2500]
      l a b e
    by (simp add: THREAT_UPDATE_INTERVAL_def tm prod_eq_iff)
qed

section \<open>ThreatManager::getThreat\<close>

lemma getThreat_untracked:
  assumes "getReferenceByTarget (refs s) (iThreatList s) victim = None"
    and "getReferenceByTarget (refs s) (offlineThreatList s) victim = None"
  shows "getThreat s victim True = Inl NullDereference"
  using assms by (simp add: getThreat_def)

text \<open>Claim C5 fails on the code. For a target with a reference in neither set,
  \<^verbatim>\<open>getThreat(victim, true)\<close> reaches its last branch, which calls \<^verbatim>\<open>getThreat()\<close> on the
  null result of the second lookup: an invalid dereference, not the value 0. Here the
  manager tracks units 11 and 12 and is asked for unit 99.\<close>

theorem getThreat_unknown_target_dereferences_null:
  "getReferenceByTarget (refs example_state) (iThreatList example_state) (Some 99) = None \<and>
   getReferenceByTarget (refs example_state) (offlineThreatList example_state) (Some 99) = None \<and>
   getThreat example_state (Some 99) True = Inl NullDereference \<and>
   getThreat example_state (Some 99) False = Inr 0 \<and>
   HasThreat example_state (Some 99) True = False"
  by (simp add: getThreat_def HasThreat_def getReferenceByTarget_def example_state_def
      HostileReference_new_def)

section \<open>Properties of the victim selection\<close>



section \<open>ThreatContainer::modifyThreatPercent and modifyAllThreatPercent\<close>

text \<open>Both act on the reachable set (\<^verbatim>\<open>iThreatContainer\<close>); the members of ThreatManager of
  the same names forward to them. The percentage is an \<^verbatim>\<open>int32\<close>, compared and passed on
  only, and is an \<open>int\<close> here.\<close>

definition modifyThreatPercent :: "World \<Rightarrow> nat option \<Rightarrow> int \<Rightarrow> ThreatManager \<Rightarrow> ThreatManager" where
  "modifyThreatPercent w victim threatPercent s =
    (case getReferenceByTarget (refs s) (iThreatList s) victim of
       Some ref \<Rightarrow>
         if threatPercent < - 100 then delete_ref ref (removeReference w ref s)
         else addThreatPercent w ref threatPercent s
     | None \<Rightarrow> s)"

text \<open>The \<^verbatim>\<open>while (!iThreatList.empty())\<close> loop: it ends only if removing the first
  reference takes it out of the list, so it is a partial function (None: no result).\<close>

partial_function (option) removeAll_loop :: "World \<Rightarrow> ThreatManager \<Rightarrow> ThreatManager option" where
  "removeAll_loop w s =
    (case iThreatList s of
       [] \<Rightarrow> Some s
     | ref # _ \<Rightarrow> removeAll_loop w (delete_ref ref (removeReference w ref s)))"

definition modifyAllThreatPercent :: "World \<Rightarrow> int \<Rightarrow> ThreatManager \<Rightarrow> ThreatManager option" where
  "modifyAllThreatPercent w threatPercent s =
    (if threatPercent < - 100 then removeAll_loop w s
     else Some (fold (\<lambda>itr. addThreatPercent w itr threatPercent) (iThreatList s) s))"

lemma removeReference_linked_online:
  assumes "iRefFrom (refs s p)" and "m_online (refs s p)"
  shows "iThreatList (removeReference w p s) = removeAll p (iThreatList s)"
    and "refs (removeReference w p s) = (refs s)(p := (refs s p)\<lparr>iRefTo := None\<rparr>)"
    and "allocated (removeReference w p s) = allocated s"
    and "offlineThreatList (removeReference w p s) = offlineThreatList s"
  using assms
  by (simp_all add: removeReference_def fireStatusChanged_def processThreatEvent_def invalidate_def
      upd_ref_def Let_def send_def setDirty_def setCurrentVictim_def online_remove_def)

lemma removeAll_loop_empties:
  assumes "\<forall>q \<in> set (iThreatList s). iRefFrom (refs s q) \<and> m_online (refs s q)"
  shows "\<exists>s'. removeAll_loop w s = Some s' \<and> iThreatList s' = [] \<and>
           set (allocated s') = set (allocated s) - set (iThreatList s) \<and>
           offlineThreatList s' = offlineThreatList s"
  using assms
proof (induction "length (iThreatList s)" arbitrary: s rule: less_induct)
  case less
  show ?case
  proof (cases "iThreatList s")
    case Nil
    then show ?thesis by (simp add: removeAll_loop.simps)
  next
    case (Cons p rest)
    let ?s1 = "delete_ref p (removeReference w p s)"
    have po: "iRefFrom (refs s p)" "m_online (refs s p)"
      using less.prems Cons by simp_all
    have l1: "iThreatList ?s1 = removeAll p rest"
      using removeReference_linked_online(1) [OF po] Cons by (simp add: delete_ref_def)
    have r1: "refs ?s1 = (refs s)(p := (refs s p)\<lparr>iRefTo := None\<rparr>)"
      using removeReference_linked_online(2) [OF po] by (simp add: delete_ref_def)
    have a1: "allocated ?s1 = removeAll p (allocated s)"
      using removeReference_linked_online(3) [OF po] by (simp add: delete_ref_def)
    have o1: "offlineThreatList ?s1 = offlineThreatList s"
      using removeReference_linked_online(4) [OF po] by (simp add: delete_ref_def)
    have len: "length (iThreatList ?s1) < length (iThreatList s)"
      using l1 Cons by (simp add: le_imp_less_Suc)
    have inv: "\<forall>q \<in> set (iThreatList ?s1). iRefFrom (refs ?s1 q) \<and> m_online (refs ?s1 q)"
      using less.prems Cons l1 r1 by auto
    from less.hyps [OF len inv] obtain s' where
      s': "removeAll_loop w ?s1 = Some s'" "iThreatList s' = []"
        "set (allocated s') = set (allocated ?s1) - set (iThreatList ?s1)"
        "offlineThreatList s' = offlineThreatList ?s1"
      by blast
    have "removeAll_loop w s = Some s'"
      using s'(1) Cons by (subst removeAll_loop.simps) simp
    moreover have "set (allocated s') = set (allocated s) - set (iThreatList s)"
      using s'(3) l1 a1 Cons by auto
    ultimately show ?thesis using s'(2,4) o1 by simp
  qed
qed

lemma addThreatPercent_frame:
  "state_frame
     (upd_ref p (\<lambda>r. r\<lparr>iThreat := clamped (iThreat (refs s p))
        (iThreat (refs s p) * real_of_int pct / 100)\<rparr>) s)
     (addThreatPercent w p pct s)"
  unfolding addThreatPercent_def by (rule HostileReference_addThreat_frame)

lemma addThreatPercent_keeps:
  "iThreatList (addThreatPercent w p pct s) = iThreatList s"
  "allocated (addThreatPercent w p pct s) = allocated s"
  "offlineThreatList (addThreatPercent w p pct s) = offlineThreatList s"
  using addThreatPercent_frame [of p s pct w]
  by (simp_all add: state_frame_def upd_ref_def)

lemma addThreatPercent_iThreat:
  "iThreat (refs (addThreatPercent w p pct s) q) =
     (if q = p then clamped (iThreat (refs s p)) (iThreat (refs s p) * real_of_int pct / 100)
      else iThreat (refs s q))"
  by (simp add: addThreatPercent_def HostileReference_addThreat_iThreat)

lemma scaled_unclamped:
  assumes "0 \<le> t" and "- 100 \<le> pct"
  shows "clamped t (t * real_of_int pct / 100) = t * (1 + real_of_int pct / 100)"
proof -
  have "- 100 \<le> real_of_int pct" using assms(2) by linarith
  then have "0 \<le> 1 + real_of_int pct / 100" by simp
  then have "0 \<le> t * (1 + real_of_int pct / 100)" using assms(1) by simp
  moreover have "t * (1 + real_of_int pct / 100) = t + t * real_of_int pct / 100"
    by (simp add: algebra_simps)
  ultimately show ?thesis by (simp add: clamped_def add.commute)
qed

lemma fold_addThreatPercent_keeps:
  "iThreatList (fold (\<lambda>itr. addThreatPercent w itr pct) xs s) = iThreatList s \<and>
   allocated (fold (\<lambda>itr. addThreatPercent w itr pct) xs s) = allocated s \<and>
   offlineThreatList (fold (\<lambda>itr. addThreatPercent w itr pct) xs s) = offlineThreatList s"
  by (induction xs arbitrary: s) (simp_all add: addThreatPercent_keeps)

text \<open>Claim C3, amended. A target without reference in the reachable set: nothing
  changes. A target whose reference \<open>p\<close> (linked to the manager and online, as the members
  of the reachable set are) is found: below \<open>- 100\<close> the reference is removed from the set
  and destroyed; from \<open>- 100\<close> on, \<open>- 100\<close> included, it stays and its threat is scaled
  by \<open>1 + pct / 100\<close>.\<close>

theorem modifyThreatPercent_tracked:
  "(getReferenceByTarget (refs s) (iThreatList s) victim = None \<longrightarrow>
      modifyThreatPercent w victim pct s = s) \<and>
   (getReferenceByTarget (refs s) (iThreatList s) victim = Some p \<and>
    iRefFrom (refs s p) \<and> m_online (refs s p) \<and> pct < - 100 \<longrightarrow>
      p \<in> set (iThreatList s) \<and>
      p \<notin> set (iThreatList (modifyThreatPercent w victim pct s)) \<and>
      p \<notin> set (allocated (modifyThreatPercent w victim pct s))) \<and>
   (getReferenceByTarget (refs s) (iThreatList s) victim = Some p \<and>
    0 \<le> iThreat (refs s p) \<and> - 100 \<le> pct \<longrightarrow>
      iThreat (refs (modifyThreatPercent w victim pct s) p) =
        iThreat (refs s p) * (1 + real_of_int pct / 100) \<and>
      iThreatList (modifyThreatPercent w victim pct s) = iThreatList s \<and>
      allocated (modifyThreatPercent w victim pct s) = allocated s)"
proof (intro conjI impI)
  assume "getReferenceByTarget (refs s) (iThreatList s) victim = None"
  then show "modifyThreatPercent w victim pct s = s"
    by (simp add: modifyThreatPercent_def)
next
  assume a: "getReferenceByTarget (refs s) (iThreatList s) victim = Some p \<and>
    iRefFrom (refs s p) \<and> m_online (refs s p) \<and> pct < - 100"
  then have eq: "modifyThreatPercent w victim pct s = delete_ref p (removeReference w p s)"
    by (simp add: modifyThreatPercent_def)
  show "p \<in> set (iThreatList s)"
    using a by (auto simp: getReferenceByTarget_def find_Some_iff split: option.splits)
  show "p \<notin> set (iThreatList (modifyThreatPercent w victim pct s))"
    using a removeReference_linked_online(1) [of s p w] by (simp add: eq delete_ref_def)
  show "p \<notin> set (allocated (modifyThreatPercent w victim pct s))"
    by (simp add: eq delete_ref_def)
next
  assume a: "getReferenceByTarget (refs s) (iThreatList s) victim = Some p \<and>
    0 \<le> iThreat (refs s p) \<and> - 100 \<le> pct"
  then have eq: "modifyThreatPercent w victim pct s = addThreatPercent w p pct s"
    by (simp add: modifyThreatPercent_def)
  show "iThreat (refs (modifyThreatPercent w victim pct s) p) =
        iThreat (refs s p) * (1 + real_of_int pct / 100)"
    using a by (simp add: eq addThreatPercent_iThreat scaled_unclamped)
  show "iThreatList (modifyThreatPercent w victim pct s) = iThreatList s"
    by (simp add: eq addThreatPercent_keeps)
  show "allocated (modifyThreatPercent w victim pct s) = allocated s"
    by (simp add: eq addThreatPercent_keeps)
qed

lemma example_lookup:
  "getReferenceByTarget (refs example_state) (iThreatList example_state) (Some 11) = Some 4"
  "getReferenceByTarget (refs example_state) (iThreatList example_state) (Some 99) = None"
  "getReferenceByTarget (refs example_state) [5, 4] (Some 11) = Some 4"
  "getReferenceByTarget (refs example_state) [5, 4] (Some 99) = None"
  "iRefFrom (refs example_state 4)" "m_online (refs example_state 4)"
  "iThreat (refs example_state 4) = 100"
  "iThreatList example_state = [5, 4]" "allocated example_state = [4, 5]"
  "iRefFrom (refs example_state 5)" "m_online (refs example_state 5)"
  by (simp_all add: getReferenceByTarget_def example_state_def HostileReference_new_def)

theorem modifyThreatPercent_tracked_witness:
  "getReferenceByTarget (refs example_state) (iThreatList example_state) (Some 11) = Some 4 \<and>
   iRefFrom (refs example_state 4) \<and> m_online (refs example_state 4) \<and>
   0 \<le> iThreat (refs example_state 4) \<and>
   4 \<notin> set (iThreatList (modifyThreatPercent example_world (Some 11) (- 150) example_state)) \<and>
   4 \<notin> set (allocated (modifyThreatPercent example_world (Some 11) (- 150) example_state)) \<and>
   iThreat (refs (modifyThreatPercent example_world (Some 11) (- 40) example_state) 4) = 60 \<and>
   modifyThreatPercent example_world (Some 99) (- 150) example_state = example_state"
  using modifyThreatPercent_tracked [of example_state "Some 11" example_world "- 150" 4]
    modifyThreatPercent_tracked [of example_state "Some 11" example_world "- 40" 4]
    modifyThreatPercent_tracked [of example_state "Some 99" example_world "- 150" 4]
  by (simp add: example_lookup)

text \<open>Claim C3 as stated fails at exactly \<open>- 100\<close>: the guard is
  \<^verbatim>\<open>threatPercent < -100\<close>, so the reference of unit 11 stays in the set, alive, with
  threat 0.\<close>

theorem modifyThreatPercent_minus_100_counterexample:
  "getReferenceByTarget (refs example_state) (iThreatList example_state) (Some 11) = Some 4 \<and>
   4 \<in> set (iThreatList (modifyThreatPercent example_world (Some 11) (- 100) example_state)) \<and>
   4 \<in> set (allocated (modifyThreatPercent example_world (Some 11) (- 100) example_state)) \<and>
   iThreat (refs (modifyThreatPercent example_world (Some 11) (- 100) example_state) 4) = 0"
  by (simp add: modifyThreatPercent_def example_lookup addThreatPercent_keeps
      addThreatPercent_iThreat clamped_def)

text \<open>Claim C2, amended. Below \<open>- 100\<close>, on a reachable set whose members are linked to
  the manager and online, the loop ends, the set is empty and every former member is
  destroyed. From \<open>- 100\<close> on, \<open>- 100\<close> included, no member is removed or destroyed.\<close>

theorem modifyAllThreatPercent_below_minus_100:
  "(pct < - 100 \<and> (\<forall>q \<in> set (iThreatList s). iRefFrom (refs s q) \<and> m_online (refs s q)) \<longrightarrow>
      (\<exists>s'. modifyAllThreatPercent w pct s = Some s' \<and> iThreatList s' = [] \<and>
            set (allocated s') = set (allocated s) - set (iThreatList s))) \<and>
   (- 100 \<le> pct \<longrightarrow>
      (\<exists>s'. modifyAllThreatPercent w pct s = Some s' \<and> iThreatList s' = iThreatList s \<and>
            allocated s' = allocated s))"
proof (intro conjI impI)
  assume "pct < - 100 \<and> (\<forall>q \<in> set (iThreatList s). iRefFrom (refs s q) \<and> m_online (refs s q))"
  then show "\<exists>s'. modifyAllThreatPercent w pct s = Some s' \<and> iThreatList s' = [] \<and>
            set (allocated s') = set (allocated s) - set (iThreatList s)"
    using removeAll_loop_empties [of s w] by (auto simp: modifyAllThreatPercent_def)
next
  assume "- 100 \<le> pct"
  then show "\<exists>s'. modifyAllThreatPercent w pct s = Some s' \<and> iThreatList s' = iThreatList s \<and>
            allocated s' = allocated s"
    by (simp add: modifyAllThreatPercent_def fold_addThreatPercent_keeps)
qed

theorem modifyAllThreatPercent_below_minus_100_witness:
  "iThreatList example_state = [5, 4] \<and>
   iRefFrom (refs example_state 5) \<and> m_online (refs example_state 5) \<and>
   iRefFrom (refs example_state 4) \<and> m_online (refs example_state 4) \<and>
   (\<exists>s'. modifyAllThreatPercent example_world (- 101) example_state = Some s' \<and>
         iThreatList s' = [] \<and> set (allocated s') = {})"
proof -
  have h: "\<forall>q \<in> set (iThreatList example_state). iRefFrom (refs example_state q) \<and> m_online (refs example_state q)"
    by (simp add: example_lookup)
  show ?thesis
    using modifyAllThreatPercent_below_minus_100 [of "- 101" example_state example_world] h
    by (simp add: example_lookup)
qed

text \<open>Claim C2 as stated fails at exactly \<open>- 100\<close>: both references are still in the
  reachable set and alive.\<close>

theorem modifyAllThreatPercent_minus_100_counterexample:
  "map_option iThreatList (modifyAllThreatPercent example_world (- 100) example_state) = Some [5, 4] \<and>
   map_option allocated (modifyAllThreatPercent example_world (- 100) example_state) = Some [4, 5]"
  by (simp add: modifyAllThreatPercent_def addThreatPercent_keeps example_lookup)

section \<open>ThreatContainer::update and ThreatManager::getHostileTarget\<close>

text \<open>The comparator of \<^verbatim>\<open>update\<close>: True when \<open>lhs\<close> goes before \<open>rhs\<close>.\<close>

definition target_IsPlayer :: "World \<Rightarrow> HostileReference \<Rightarrow> bool" where
  "target_IsPlayer w r = (case iRefTo r of Some t \<Rightarrow> IsPlayer w t | None \<Rightarrow> False)"

definition target_CanAttack :: "World \<Rightarrow> HostileReference \<Rightarrow> bool" where
  "target_CanAttack w r = (case iRefTo r of Some t \<Rightarrow> CanAttack w t | None \<Rightarrow> False)"

definition sort_before ::
  "World \<Rightarrow> (nat \<Rightarrow> HostileReference) \<Rightarrow> bool \<Rightarrow> bool \<Rightarrow> nat \<Rightarrow> nat \<Rightarrow> bool" where
  "sort_before w h force isPlayer lhs rhs =
    (if isPlayer \<and> target_IsPlayer w (h lhs) \<and> \<not> target_IsPlayer w (h rhs) then True
     else if isPlayer \<and> \<not> target_IsPlayer w (h lhs) \<and> target_IsPlayer w (h rhs) then False
     else if isPlayer \<and> target_CanAttack w (h lhs) \<and> \<not> target_CanAttack w (h rhs) then True
     else if isPlayer \<and> \<not> target_CanAttack w (h lhs) \<and> target_CanAttack w (h rhs) then False
     else if m_tauntState (h lhs) \<noteq> m_tauntState (h rhs)
       then m_tauntState (h lhs) > m_tauntState (h rhs)
     else if force \<and> CanReachWithMeleeAttack w (iRefTo (h lhs)) \<noteq> CanReachWithMeleeAttack w (iRefTo (h rhs))
       then CanReachWithMeleeAttack w (iRefTo (h lhs)) \<and> \<not> CanReachWithMeleeAttack w (iRefTo (h rhs))
     else if m_hostileState (h lhs) \<noteq> m_hostileState (h rhs)
       then hostile_rank (m_hostileState (h lhs)) > hostile_rank (m_hostileState (h rhs))
     else iThreat (h lhs) > iThreat (h rhs))"

fun insort_refs :: "(nat \<Rightarrow> nat \<Rightarrow> bool) \<Rightarrow> nat \<Rightarrow> nat list \<Rightarrow> nat list" where
  "insort_refs before x [] = [x]"
| "insort_refs before x (y # ys) =
    (if before x y then x # y # ys else y # insort_refs before x ys)"

definition sort_refs :: "(nat \<Rightarrow> nat \<Rightarrow> bool) \<Rightarrow> nat list \<Rightarrow> nat list" where
  "sort_refs before xs = foldl (\<lambda>acc x. insort_refs before x acc) [] xs"


text \<open>\<^verbatim>\<open>update\<close>: \<^verbatim>\<open>std::list::sort\<close> is a stable sort, modelled by stable insertion.
  Every comparison dereferences \<^verbatim>\<open>getSource()\<close> of its left argument and, for a player
  owner, the targets of both; the model fails when a reference of the list to sort lacks
  one of them.\<close>

definition update :: "World \<Rightarrow> bool \<Rightarrow> bool \<Rightarrow> ThreatManager \<Rightarrow> error + ThreatManager" where
  "update w force isPlayer s =
    (if (iDirty s \<or> force \<or> isPlayer) \<and> length (iThreatList s) > 1 then
       (if \<exists>p \<in> set (iThreatList s).
             \<not> iRefFrom (refs s p) \<or> (isPlayer \<and> iRefTo (refs s p) = None)
        then Inl NullDereference
        else Inr (s\<lparr>iThreatList :=
                      sort_refs (sort_before w (refs s) force isPlayer) (iThreatList s),
                    iDirty := False\<rparr>))
     else Inr (s\<lparr>iDirty := False\<rparr>))"

definition UpdateContainers :: "World \<Rightarrow> ThreatManager \<Rightarrow> error + ThreatManager" where
  "UpdateContainers w s = update w (IsIgnoringRangedTargets w) (ownerIsPlayer w) s"

definition getHostileTarget :: "World \<Rightarrow> ThreatManager \<Rightarrow> error + (nat option \<times> ThreatManager)" where
  "getHostileTarget w s =
    (case UpdateContainers w s of
       Inl e \<Rightarrow> Inl e
     | Inr s1 \<Rightarrow>
        (case selectNextVictim w (refs s1) (iThreatList s1) (iCurrentVictim s1) of
           Inl e \<Rightarrow> Inl e
         | Inr nextVictim \<Rightarrow>
            (let s2 = setCurrentVictim nextVictim s1
             in Inr (case iCurrentVictim s2 of
                       Some p \<Rightarrow> iRefTo (refs s2 p)
                     | None \<Rightarrow> None, s2))))"

lemma set_insort_refs: "set (insort_refs before x ys) = insert x (set ys)"
  by (induction ys) auto

lemma set_sort_refs_aux:
  "set (foldl (\<lambda>acc x. insort_refs before x acc) acc xs) = set acc \<union> set xs"
  by (induction xs arbitrary: acc) (auto simp: set_insort_refs)

lemma set_sort_refs: "set (sort_refs before xs) = set xs"
  by (simp add: sort_refs_def set_sort_refs_aux)












section \<open>ThreatCalcHelper::CalcThreat\<close>

text \<open>A spell context: the id and whether the spell has \<^verbatim>\<open>SPELL_ATTR_EX_NO_THREAT\<close>.
  The multipliers come from the aura system (fields of \<open>World\<close>); the hating unit is the
  owner, and \<^verbatim>\<open>GetTypeId() == TYPEID_PLAYER\<close> is taken to be \<^verbatim>\<open>IsPlayer()\<close>.\<close>

record SpellEntry =
  Id :: nat
  SPELL_ATTR_EX_NO_THREAT :: bool

definition CalcThreat ::
  "World \<Rightarrow> nat \<Rightarrow> real \<Rightarrow> bool \<Rightarrow> nat \<Rightarrow> SpellEntry option \<Rightarrow> bool \<Rightarrow> real" where
  "CalcThreat w hatedUnit threat crit schoolMask threatSpell assist =
    (if threat = 0 then 0
     else if GetNoThreatState w hatedUnit then 0
     else if ownerIsPlayer w then 0
     else if \<not> assist \<and> IsSupportThreatOnly w hatedUnit then 0
     else
       (let threat1 =
          (case threatSpell of
             Some spell \<Rightarrow>
               (let threat0 =
                  (case GetSpellModOwner w hatedUnit of
                     Some modOwner \<Rightarrow> ApplySpellMod w modOwner (Id spell) threat
                   | None \<Rightarrow> threat)
                in if crit then threat0 * CriticalThreatMultiplier w hatedUnit schoolMask
                   else threat0)
           | None \<Rightarrow> threat)
        in ApplyTotalThreatModifier w hatedUnit threat1 schoolMask))"

section \<open>ThreatContainer::addThreat, ThreatManager::addThreat and addThreatDirectly\<close>

definition ThreatContainer_addThreat ::
  "World \<Rightarrow> nat list \<Rightarrow> nat option \<Rightarrow> real \<Rightarrow> ThreatManager \<Rightarrow> nat option \<times> ThreatManager" where
  "ThreatContainer_addThreat w threatList victim threat s =
    (case getReferenceByTarget (refs s) threatList victim of
       Some ref \<Rightarrow> (Some ref, HostileReference_addThreat w ref threat s)
     | None \<Rightarrow> (None, s))"

text \<open>\<^verbatim>\<open>new HostileReference(victim, this, threat)\<close>: an address that is not live.\<close>

definition new_address :: "ThreatManager \<Rightarrow> nat" where
  "new_address s = Suc (fold max (allocated s) 0)"

definition new_HostileReference :: "nat \<Rightarrow> real \<Rightarrow> ThreatManager \<Rightarrow> nat \<times> ThreatManager" where
  "new_HostileReference unit threat s =
    (let p = new_address s
     in (p, s\<lparr>refs := (refs s)(p := HostileReference_new unit threat),
              allocated := allocated s @ [p]\<rparr>))"

text \<open>\<^verbatim>\<open>addThreat\<close> calls \<^verbatim>\<open>addThreatDirectly\<close>, which calls \<^verbatim>\<open>addThreat\<close> for the master
  of a new victim: the recursion follows the chain of masters and need not end, so both
  take fuel, the number of nested \<^verbatim>\<open>addThreatDirectly\<close> calls allowed (None: out of fuel).
  Modelled from the spec: the two-argument \<^verbatim>\<open>addThreat(victim_owner, 0.0f)\<close> is declared
  in the missing header; it registers a zero-amount link, with no critical hit, no school,
  no spell and no assist.\<close>

fun ThreatManager_addThreat ::
    "nat \<Rightarrow> World \<Rightarrow> nat option \<Rightarrow> real \<Rightarrow> bool \<Rightarrow> nat \<Rightarrow> SpellEntry option \<Rightarrow> bool \<Rightarrow>
     ThreatManager \<Rightarrow> ThreatManager option"
  and addThreatDirectly ::
    "nat \<Rightarrow> World \<Rightarrow> nat \<Rightarrow> real \<Rightarrow> bool \<Rightarrow> ThreatManager \<Rightarrow> ThreatManager option"
where
  "ThreatManager_addThreat fuel w victim threat crit schoolMask threatSpell assist s =
    (case victim of
       None \<Rightarrow> Some s
     | Some v \<Rightarrow>
        if v = getOwner w then Some s
        else if IsPlayer w v \<and> IsGameMaster w v then Some s
        else if \<not> IsAlive w v \<or> \<not> ownerIsAlive w then Some s
        else
          (let calculatedThreat = CalcThreat w v threat crit schoolMask threatSpell assist;
               noNew = (case threatSpell of
                          Some spell \<Rightarrow> SPELL_ATTR_EX_NO_THREAT spell
                        | None \<Rightarrow> False)
           in if calculatedThreat > 0 \<and> \<not> IsIgnoringMisdirection w then
                (case GetThreatRedirectionTarget w v of
                   Some redirectedTarget \<Rightarrow>
                     if redirectedTarget \<noteq> getOwner w \<and> IsAlive w redirectedTarget then
                       (case addThreatDirectly fuel w redirectedTarget calculatedThreat False s of
                          None \<Rightarrow> None
                        | Some s1 \<Rightarrow> addThreatDirectly fuel w v 0 noNew s1)
                     else addThreatDirectly fuel w v calculatedThreat noNew s
                 | None \<Rightarrow> addThreatDirectly fuel w v calculatedThreat noNew s)
              else addThreatDirectly fuel w v calculatedThreat noNew s))"
| "addThreatDirectly 0 w victim threat noNew s = None"
| "addThreatDirectly (Suc fuel) w victim threat noNew s =
    (let (ref0, s1) = ThreatContainer_addThreat w (iThreatList s) (Some victim) threat s;
         (ref1, s2) = (if ref0 = None
                       then ThreatContainer_addThreat w (offlineThreatList s1) (Some victim) threat s1
                       else (ref0, s1))
     in if ref1 = None \<and> \<not> noNew then
          (let (hostileReference, s3) = new_HostileReference victim 0 s2;
               s4 = online_addReference hostileReference s3;
               s5 = HostileReference_addThreat w hostileReference threat s4;
               s6 = send (AggroLinkingEvent victim) s5
           in case (if IsPropagatingThreatToOwner w victim then
                      (case GetMaster w victim of
                         Some victim_owner \<Rightarrow>
                           if IsAlive w victim_owner \<and> CanJoinInAttacking w victim_owner
                           then ThreatManager_addThreat fuel w (Some victim_owner) 0 False 0 None False s6
                           else Some s6
                       | None \<Rightarrow> Some s6)
                    else Some s6) of
                None \<Rightarrow> None
              | Some s7 \<Rightarrow>
                  Some (if IsOfflineTarget w victim \<or> (IsPlayer w victim \<and> IsGameMaster w victim)
                        then setOnlineOfflineState w hostileReference False s7
                        else s7))
        else Some s2)"

declare ThreatManager_addThreat.simps [simp del]
declare addThreatDirectly.simps(2) [simp del]

section \<open>What a registration does to the tracked references\<close>

text \<open>The references the manager tracks, and the state it keeps them in: no reference
  twice, every one live, one reference per unit, no negative threat.\<close>

definition tracked :: "ThreatManager \<Rightarrow> nat set" where
  "tracked s = set (iThreatList s) \<union> set (offlineThreatList s)"

definition wf_sets :: "ThreatManager \<Rightarrow> bool" where
  "wf_sets s =
    (distinct (iThreatList s @ offlineThreatList s) \<and>
     tracked s \<subseteq> set (allocated s) \<and>
     inj_on (\<lambda>p. iUnitGuid (refs s p)) (tracked s) \<and>
     (\<forall>p \<in> tracked s. 0 \<le> iThreat (refs s p)))"

text \<open>The lookup of \<^verbatim>\<open>addThreatDirectly\<close> and \<^verbatim>\<open>HasThreat\<close>: the reachable set first, then
  the unreachable one; and the threat registered for a unit, 0 when it has no reference.\<close>

definition tracked_ref :: "ThreatManager \<Rightarrow> nat \<Rightarrow> nat option" where
  "tracked_ref s u =
    (case getReferenceByTarget (refs s) (iThreatList s) (Some u) of
       Some p \<Rightarrow> Some p
     | None \<Rightarrow> getReferenceByTarget (refs s) (offlineThreatList s) (Some u))"

definition registered_threat :: "ThreatManager \<Rightarrow> nat \<Rightarrow> real" where
  "registered_threat s u =
    (case tracked_ref s u of Some p \<Rightarrow> iThreat (refs s p) | None \<Rightarrow> 0)"

text \<open>\<open>Post v a s s'\<close>: from \<open>s\<close> to \<open>s'\<close> the tracked references stay tracked, in the
  same set and for the same unit, the one of unit \<open>v\<close> gains \<open>a\<close> and no other changes; a
  reference tracked in \<open>s'\<close> only holds \<open>a\<close> if it is for \<open>v\<close> and 0 otherwise.\<close>

definition Post :: "nat \<Rightarrow> real \<Rightarrow> ThreatManager \<Rightarrow> ThreatManager \<Rightarrow> bool" where
  "Post v a s s' =
    (wf_sets s' \<and>
     (\<forall>p \<in> tracked s.
        p \<in> tracked s' \<and> (p \<in> set (iThreatList s') \<longleftrightarrow> p \<in> set (iThreatList s)) \<and>
        iUnitGuid (refs s' p) = iUnitGuid (refs s p) \<and>
        iThreat (refs s' p) = iThreat (refs s p) + (if iUnitGuid (refs s p) = v then a else 0)) \<and>
     (\<forall>p \<in> tracked s' - tracked s.
        iThreat (refs s' p) = (if iUnitGuid (refs s' p) = v then a else 0)))"

lemma find_guid_None:
  "find (\<lambda>p. iUnitGuid (h p) = u) xs = None \<longleftrightarrow> (\<forall>p \<in> set xs. iUnitGuid (h p) \<noteq> u)"
  by (auto simp: find_None_iff)

lemma find_guid_Some:
  "find (\<lambda>p. iUnitGuid (h p) = u) xs = Some p \<Longrightarrow> p \<in> set xs \<and> iUnitGuid (h p) = u"
  by (auto simp: find_Some_iff)

lemma tracked_ref_Some:
  "tracked_ref s u = Some p \<Longrightarrow> p \<in> tracked s \<and> iUnitGuid (refs s p) = u"
  by (auto simp: tracked_ref_def getReferenceByTarget_def tracked_def
      split: option.splits dest: find_guid_Some)

lemma tracked_ref_None:
  "tracked_ref s u = None \<longleftrightarrow> (\<forall>p \<in> tracked s. iUnitGuid (refs s p) \<noteq> u)"
  by (auto simp: tracked_ref_def getReferenceByTarget_def tracked_def find_guid_None
      split: option.splits dest: find_guid_Some)

lemma tracked_ref_unique:
  assumes "wf_sets s" and "p \<in> tracked s" and "iUnitGuid (refs s p) = u"
  shows "tracked_ref s u = Some p"
proof (cases "tracked_ref s u")
  case None
  then show ?thesis using assms by (simp add: tracked_ref_None)
next
  case (Some q)
  then have "q \<in> tracked s" "iUnitGuid (refs s q) = u"
    using tracked_ref_Some by blast+
  then have "q = p"
    using assms by (auto simp: wf_sets_def inj_on_def)
  then show ?thesis using Some by simp
qed

lemma HostileReference_addThreat_fields:
  "iThreatList (HostileReference_addThreat w p d s) = iThreatList s"
  "offlineThreatList (HostileReference_addThreat w p d s) = offlineThreatList s"
  "allocated (HostileReference_addThreat w p d s) = allocated s"
  "iCurrentVictim (HostileReference_addThreat w p d s) = iCurrentVictim s"
  "iUnitGuid (refs (HostileReference_addThreat w p d s) q) = iUnitGuid (refs s q)"
  "m_online (refs (HostileReference_addThreat w p d s) q) = m_online (refs s q)"
  "iRefFrom (refs (HostileReference_addThreat w p d s) q) = iRefFrom (refs s q)"
  "iRefTo (refs (HostileReference_addThreat w p d s) q) = iRefTo (refs s q)"
  using HostileReference_addThreat_frame [of p s d w]
  by (simp_all add: state_frame_def ref_frame_def upd_ref_def)

lemma tracked_addThreat [simp]: "tracked (HostileReference_addThreat w p d s) = tracked s"
  by (simp add: tracked_def HostileReference_addThreat_fields)


lemma wf_sets_addThreat:
  assumes "wf_sets s"
  shows "wf_sets (HostileReference_addThreat w p a s)"
proof -
  let ?s' = "HostileReference_addThreat w p a s"
  have g: "(\<lambda>q. iUnitGuid (refs ?s' q)) = (\<lambda>q. iUnitGuid (refs s q))"
    by (simp add: HostileReference_addThreat_fields)
  have t: "\<And>q. 0 \<le> iThreat (refs s q) \<Longrightarrow> 0 \<le> iThreat (refs ?s' q)"
    by (auto simp: HostileReference_addThreat_iThreat clamped_nonneg)
  show ?thesis
    using assms t unfolding wf_sets_def g tracked_addThreat
    by (simp add: HostileReference_addThreat_fields)
qed

lemma Post_addThreat_tracked:
  assumes "wf_sets s" and "p \<in> tracked s" and "iUnitGuid (refs s p) = v" and "0 \<le> a"
  shows "Post v a s (HostileReference_addThreat w p a s)"
proof -
  let ?s' = "HostileReference_addThreat w p a s"
  have tp: "0 \<le> iThreat (refs s p)" using assms(1,2) by (simp add: wf_sets_def)
  have t: "iThreat (refs ?s' q) = (if q = p then iThreat (refs s p) + a else iThreat (refs s q))" for q
    using tp assms(4) by (simp add: HostileReference_addThreat_iThreat clamped_def)
  have u: "q = p" if "q \<in> tracked s" "iUnitGuid (refs s q) = v" for q
    using assms(1,2,3) that unfolding wf_sets_def inj_on_def by blast
  have w: "wf_sets ?s'" using assms(1) by (rule wf_sets_addThreat)
  have old: "q \<in> tracked ?s' \<and> (q \<in> set (iThreatList ?s') \<longleftrightarrow> q \<in> set (iThreatList s)) \<and>
        iUnitGuid (refs ?s' q) = iUnitGuid (refs s q) \<and>
        iThreat (refs ?s' q) = iThreat (refs s q) + (if iUnitGuid (refs s q) = v then a else 0)"
    if "q \<in> tracked s" for q
  proof (cases "q = p")
    case True
    then show ?thesis using that assms(3) by (simp add: t HostileReference_addThreat_fields)
  next
    case False
    then have "iUnitGuid (refs s q) \<noteq> v" using u that by blast
    then show ?thesis using that False by (simp add: t HostileReference_addThreat_fields)
  qed
  show ?thesis
    unfolding Post_def using w old by simp
qed

lemma Post_refl_untracked:
  assumes "wf_sets s" and "tracked_ref s v = None"
  shows "Post v a s s"
proof -
  have "iUnitGuid (refs s p) \<noteq> v" if "p \<in> tracked s" for p
    using assms(2) that by (simp add: tracked_ref_None)
  then show ?thesis
    unfolding Post_def using assms(1) by simp
qed

lemma fold_max_ge: "a \<le> fold max xs a \<and> (\<forall>x \<in> set xs. x \<le> fold max xs (a :: nat))"
proof (induction xs arbitrary: a)
  case Nil
  show ?case by simp
next
  case (Cons y ys)
  have "max y a \<le> fold max ys (max y a)" "\<forall>x \<in> set ys. x \<le> fold max ys (max y a)"
    using Cons.IH [of "max y a"] by simp_all
  then show ?case by auto
qed

lemma new_address_fresh: "new_address s \<notin> set (allocated s)"
  using fold_max_ge [of 0 "allocated s"] by (auto simp: new_address_def)

lemma Post_tracked_after:
  assumes "Post v a s s'" and "tracked_ref s x \<noteq> None"
  shows "tracked_ref s' x \<noteq> None"
proof -
  obtain p where p: "tracked_ref s x = Some p" using assms(2) by auto
  then have "p \<in> tracked s" "iUnitGuid (refs s p) = x" using tracked_ref_Some by blast+
  then have "p \<in> tracked s'" "iUnitGuid (refs s' p) = x"
    using assms(1) by (simp_all add: Post_def)
  then show ?thesis by (auto simp: tracked_ref_None)
qed

lemma Post_compose_zero:
  assumes "Post v a s s1" and "Post u 0 s1 s2" and "tracked_ref s1 v \<noteq> None"
  shows "Post v a s s2"
proof -
  obtain q where q: "q \<in> tracked s1" "iUnitGuid (refs s1 q) = v"
    using assms(3) by (auto simp: tracked_ref_None)
  have q2: "q \<in> tracked s2" "iUnitGuid (refs s2 q) = v"
    using assms(2) q by (simp_all add: Post_def)
  have w2: "wf_sets s2" using assms(2) by (simp add: Post_def)
  have old: "p \<in> tracked s2 \<and> (p \<in> set (iThreatList s2) \<longleftrightarrow> p \<in> set (iThreatList s)) \<and>
        iUnitGuid (refs s2 p) = iUnitGuid (refs s p) \<and>
        iThreat (refs s2 p) = iThreat (refs s p) + (if iUnitGuid (refs s p) = v then a else 0)"
    if "p \<in> tracked s" for p
  proof -
    have 1: "p \<in> tracked s1" "p \<in> set (iThreatList s1) \<longleftrightarrow> p \<in> set (iThreatList s)"
      "iUnitGuid (refs s1 p) = iUnitGuid (refs s p)"
      "iThreat (refs s1 p) = iThreat (refs s p) + (if iUnitGuid (refs s p) = v then a else 0)"
      using assms(1) that by (simp_all add: Post_def)
    have 2: "p \<in> tracked s2" "p \<in> set (iThreatList s2) \<longleftrightarrow> p \<in> set (iThreatList s1)"
      "iUnitGuid (refs s2 p) = iUnitGuid (refs s1 p)"
      "iThreat (refs s2 p) = iThreat (refs s1 p)"
      using assms(2) 1(1) by (simp_all add: Post_def)
    show ?thesis using 1 2 by simp
  qed
  have new: "iThreat (refs s2 p) = (if iUnitGuid (refs s2 p) = v then a else 0)"
    if "p \<in> tracked s2 - tracked s" for p
  proof (cases "p \<in> tracked s1")
    case True
    then have "iThreat (refs s1 p) = (if iUnitGuid (refs s1 p) = v then a else 0)"
      using assms(1) that by (simp add: Post_def)
    moreover have "iUnitGuid (refs s2 p) = iUnitGuid (refs s1 p)" "iThreat (refs s2 p) = iThreat (refs s1 p)"
      using assms(2) True by (simp_all add: Post_def)
    ultimately show ?thesis by simp
  next
    case False
    then have z: "iThreat (refs s2 p) = 0"
      using assms(2) that by (simp add: Post_def)
    have "p \<noteq> q" using False q(1) by blast
    then have "iUnitGuid (refs s2 p) \<noteq> v"
      using w2 q2 that unfolding wf_sets_def inj_on_def by (metis DiffD1)
    then show ?thesis using z by simp
  qed
  show ?thesis unfolding Post_def using w2 old new by simp
qed

lemma setOnlineOfflineState_False_fields:
  "allocated (setOnlineOfflineState w p False s) = allocated s"
  "iUnitGuid (refs (setOnlineOfflineState w p False s) q) = iUnitGuid (refs s q)"
  "iThreat (refs (setOnlineOfflineState w p False s) q) = iThreat (refs s q)"
  "(iThreatList (setOnlineOfflineState w p False s) = iThreatList s \<and>
    offlineThreatList (setOnlineOfflineState w p False s) = offlineThreatList s) \<or>
   (iThreatList (setOnlineOfflineState w p False s) = removeAll p (iThreatList s) \<and>
    offlineThreatList (setOnlineOfflineState w p False s) = offlineThreatList s @ [p])"
  by (simp_all add: setOnlineOfflineState_def fireStatusChanged_def processThreatEvent_def
      upd_ref_def Let_def setDirty_def setCurrentVictim_def send_def online_remove_def
      offline_addReference_def split: option.splits)

lemma wf_sets_move:
  assumes "wf_sets s" and "p \<in> set (iThreatList s)"
  shows "wf_sets (setOnlineOfflineState w p False s) \<and>
         tracked (setOnlineOfflineState w p False s) = tracked s \<and>
         (\<forall>q. q \<noteq> p \<longrightarrow> (q \<in> set (iThreatList (setOnlineOfflineState w p False s)) \<longleftrightarrow>
                             q \<in> set (iThreatList s)))"
proof -
  let ?s' = "setOnlineOfflineState w p False s"
  have g: "(\<lambda>q. iUnitGuid (refs ?s' q)) = (\<lambda>q. iUnitGuid (refs s q))"
    by (simp add: setOnlineOfflineState_False_fields)
  have d: "distinct (iThreatList s)" "distinct (offlineThreatList s)"
    "set (iThreatList s) \<inter> set (offlineThreatList s) = {}"
    using assms(1) by (simp_all add: wf_sets_def)
  then have po: "p \<notin> set (offlineThreatList s)" using assms(2) by blast
  consider (same) "iThreatList ?s' = iThreatList s" "offlineThreatList ?s' = offlineThreatList s"
    | (moved) "iThreatList ?s' = removeAll p (iThreatList s)"
        "offlineThreatList ?s' = offlineThreatList s @ [p]"
    using setOnlineOfflineState_False_fields(4) [of w p s] by blast
  then show ?thesis
  proof cases
    case same
    then have "tracked ?s' = tracked s" by (simp add: tracked_def)
    then show ?thesis
      using assms(1) same unfolding wf_sets_def g
      by (simp add: setOnlineOfflineState_False_fields)
  next
    case moved
    then have tr: "tracked ?s' = tracked s" using assms(2) by (auto simp: tracked_def)
    have dd: "distinct (iThreatList ?s' @ offlineThreatList ?s')"
      using d po moved by (auto simp: distinct_removeAll)
    show ?thesis
      using assms(1) dd moved(1) unfolding wf_sets_def g tr
      by (simp add: setOnlineOfflineState_False_fields)
  qed
qed

lemma Post_move:
  assumes "Post v a s s7" and "p \<in> set (iThreatList s7)" and "p \<notin> tracked s"
  shows "Post v a s (setOnlineOfflineState w p False s7)"
proof -
  let ?s' = "setOnlineOfflineState w p False s7"
  have w7: "wf_sets s7" using assms(1) by (simp add: Post_def)
  have m: "wf_sets ?s'" "tracked ?s' = tracked s7"
    "\<And>q. q \<noteq> p \<Longrightarrow> (q \<in> set (iThreatList ?s') \<longleftrightarrow> q \<in> set (iThreatList s7))"
    using wf_sets_move [OF w7 assms(2), of w] by simp_all
  have old: "q \<in> tracked ?s' \<and> (q \<in> set (iThreatList ?s') \<longleftrightarrow> q \<in> set (iThreatList s)) \<and>
        iUnitGuid (refs ?s' q) = iUnitGuid (refs s q) \<and>
        iThreat (refs ?s' q) = iThreat (refs s q) + (if iUnitGuid (refs s q) = v then a else 0)"
    if "q \<in> tracked s" for q
  proof -
    have "q \<noteq> p" using that assms(3) by blast
    then show ?thesis
      using assms(1) that m by (simp add: Post_def setOnlineOfflineState_False_fields)
  qed
  have new: "iThreat (refs ?s' q) = (if iUnitGuid (refs ?s' q) = v then a else 0)"
    if "q \<in> tracked ?s' - tracked s" for q
    using assms(1) that m(2) by (simp add: Post_def setOnlineOfflineState_False_fields)
  show ?thesis unfolding Post_def using m(1) old new by simp
qed

text \<open>The state after the creation steps of \<^verbatim>\<open>addThreatDirectly\<close>, before the master
  of the victim is registered.\<close>

definition created :: "World \<Rightarrow> nat \<Rightarrow> real \<Rightarrow> ThreatManager \<Rightarrow> ThreatManager" where
  "created w victim threat s =
    (let (hostileReference, s3) = new_HostileReference victim 0 s;
         s4 = online_addReference hostileReference s3;
         s5 = HostileReference_addThreat w hostileReference threat s4
     in send (AggroLinkingEvent victim) s5)"

definition propagates :: "World \<Rightarrow> nat \<Rightarrow> nat option" where
  "propagates w victim =
    (if IsPropagatingThreatToOwner w victim then
       (case GetMaster w victim of
          Some victim_owner \<Rightarrow>
            if IsAlive w victim_owner \<and> CanJoinInAttacking w victim_owner
            then Some victim_owner else None
        | None \<Rightarrow> None)
     else None)"

lemma addThreatDirectly_tracked:
  assumes "tracked_ref s v = Some p"
  shows "addThreatDirectly (Suc n) w v a noNew s = Some (HostileReference_addThreat w p a s)"
proof (cases "getReferenceByTarget (refs s) (iThreatList s) (Some v)")
  case None
  then have "getReferenceByTarget (refs s) (offlineThreatList s) (Some v) = Some p"
    using assms by (simp add: tracked_ref_def)
  then show ?thesis
    using None by (simp add: addThreatDirectly.simps(2) ThreatContainer_addThreat_def)
next
  case (Some q)
  then have "q = p" using assms by (simp add: tracked_ref_def)
  then show ?thesis
    using Some by (simp add: addThreatDirectly.simps(2) ThreatContainer_addThreat_def)
qed

lemma addThreatDirectly_untracked:
  assumes "tracked_ref s v = None"
  shows "addThreatDirectly (Suc n) w v a noNew s =
    (if noNew then Some s
     else
       (case (case propagates w v of
                Some victim_owner \<Rightarrow>
                  ThreatManager_addThreat n w (Some victim_owner) 0 False 0 None False (created w v a s)
              | None \<Rightarrow> Some (created w v a s)) of
          None \<Rightarrow> None
        | Some s7 \<Rightarrow>
            Some (if IsOfflineTarget w v \<or> (IsPlayer w v \<and> IsGameMaster w v)
                  then setOnlineOfflineState w (new_address s) False s7
                  else s7)))"
proof -
  have l: "getReferenceByTarget (refs s) (iThreatList s) (Some v) = None"
    "getReferenceByTarget (refs s) (offlineThreatList s) (Some v) = None"
    using assms by (simp_all add: tracked_ref_def split: option.splits)
  have c: "created w v a s =
      send (AggroLinkingEvent v) (HostileReference_addThreat w (new_address s) a
        (online_addReference (new_address s)
          (s\<lparr>refs := (refs s)(new_address s := HostileReference_new v 0),
             allocated := allocated s @ [new_address s]\<rparr>)))"
    by (simp add: created_def new_HostileReference_def Let_def)
  show ?thesis
  proof (cases "propagates w v")
    case None
    then show ?thesis
      unfolding c
      by (auto simp: addThreatDirectly.simps(2) ThreatContainer_addThreat_def l
          propagates_def new_HostileReference_def Let_def split: option.splits if_splits)
  next
    case (Some m)
    then have "IsPropagatingThreatToOwner w v" "GetMaster w v = Some m"
      "IsAlive w m" "CanJoinInAttacking w m"
      by (auto simp: propagates_def split: option.splits if_splits)
    then show ?thesis
      unfolding c using Some
      by (simp add: addThreatDirectly.simps(2) ThreatContainer_addThreat_def l
          new_HostileReference_def Let_def)
  qed
qed

lemma ThreatManager_addThreat_zero:
  "ThreatManager_addThreat n w (Some m) 0 False 0 None False s =
    (if m = getOwner w \<or> (IsPlayer w m \<and> IsGameMaster w m) \<or> \<not> IsAlive w m \<or> \<not> ownerIsAlive w
     then Some s else addThreatDirectly n w m 0 False s)"
  by (auto simp: ThreatManager_addThreat.simps CalcThreat_def)

lemma Post_send: "Post v a s s' \<Longrightarrow> Post v a s (send pkt s')"
proof -
  have "tracked (send pkt s') = tracked s'" "refs (send pkt s') = refs s'"
    "iThreatList (send pkt s') = iThreatList s'" "wf_sets (send pkt s') = wf_sets s'"
    by (simp_all add: send_def wf_sets_def tracked_def)
  then show "Post v a s s' \<Longrightarrow> Post v a s (send pkt s')"
    unfolding Post_def by simp
qed

lemma Post_refl_zero: "wf_sets s \<Longrightarrow> Post v 0 s s"
  by (simp add: Post_def)

lemma Post_create:
  assumes "wf_sets s" and "tracked_ref s v = None" and "0 \<le> a"
  shows "Post v a s (created w v a s) \<and> new_address s \<in> set (iThreatList (created w v a s)) \<and>
         new_address s \<notin> tracked s \<and> tracked_ref (created w v a s) v \<noteq> None"
proof -
  let ?p = "new_address s"
  let ?s4 = "online_addReference ?p (snd (new_HostileReference v 0 s))"
  let ?s5 = "HostileReference_addThreat w ?p a ?s4"
  have c: "created w v a s = send (AggroLinkingEvent v) ?s5"
    by (simp add: created_def new_HostileReference_def Let_def)
  have fresh: "?p \<notin> tracked s"
    using assms(1) new_address_fresh [of s] by (auto simp: wf_sets_def)
  have f4: "refs ?s4 = (refs s)(?p := HostileReference_new v 0)"
    "iThreatList ?s4 = iThreatList s @ [?p]" "offlineThreatList ?s4 = offlineThreatList s"
    "allocated ?s4 = allocated s @ [?p]"
    by (simp_all add: online_addReference_def new_HostileReference_def Let_def)
  have t4: "tracked ?s4 = insert ?p (tracked s)"
    by (auto simp: tracked_def f4)
  have old4: "refs ?s4 q = refs s q" if "q \<in> tracked s" for q
    using that fresh by (auto simp: f4)
  have new4: "iUnitGuid (refs ?s4 ?p) = v" "iThreat (refs ?s4 ?p) = 0"
    by (simp_all add: f4 HostileReference_new_def)
  have unt: "iUnitGuid (refs s q) \<noteq> v" if "q \<in> tracked s" for q
    using assms(2) that by (simp add: tracked_ref_None)
  have w4: "wf_sets ?s4"
    unfolding wf_sets_def
  proof (intro conjI ballI)
    show "distinct (iThreatList ?s4 @ offlineThreatList ?s4)"
      using assms(1) fresh by (auto simp: f4 wf_sets_def tracked_def)
    show "tracked ?s4 \<subseteq> set (allocated ?s4)"
      using assms(1) by (auto simp: t4 f4 wf_sets_def)
    show "inj_on (\<lambda>p. iUnitGuid (refs ?s4 p)) (tracked ?s4)"
      unfolding t4
    proof (rule inj_onI)
      fix x y
      assume x: "x \<in> insert ?p (tracked s)" and y: "y \<in> insert ?p (tracked s)"
        and e: "iUnitGuid (refs ?s4 x) = iUnitGuid (refs ?s4 y)"
      show "x = y"
      proof (cases "x = ?p \<or> y = ?p")
        case True
        have g: "iUnitGuid (refs ?s4 z) \<noteq> v" if "z \<in> tracked s" for z
          using old4 [OF that] unt [OF that] by simp
        show ?thesis
        proof (rule ccontr)
          assume ne: "x \<noteq> y"
          then consider "x = ?p" "y \<in> tracked s" | "y = ?p" "x \<in> tracked s"
            using True x y by auto
          then show False
          proof cases
            case 1
            then show False using g [of y] e new4(1) by simp
          next
            case 2
            then show False using g [of x] e new4(1) by simp
          qed
        qed
      next
        case False
        then have "x \<in> tracked s" "y \<in> tracked s" using x y by auto
        then show ?thesis
          using e old4 assms(1) unfolding wf_sets_def inj_on_def by metis
      qed
    qed
  next
    fix q assume "q \<in> tracked ?s4"
    then show "0 \<le> iThreat (refs ?s4 q)"
      using assms(1) new4(2) old4 unfolding t4 wf_sets_def by (metis insertE order_refl)
  qed
  have p45: "Post v a ?s4 ?s5"
    using w4 new4(1) assms(3) by (intro Post_addThreat_tracked) (simp_all add: t4)
  have t5: "tracked ?s5 = insert ?p (tracked s)" by (simp add: t4)
  have "Post v a s ?s5"
    unfolding Post_def
  proof (intro conjI ballI)
    show "wf_sets ?s5" using p45 by (simp add: Post_def)
  next
    fix q assume q: "q \<in> tracked s"
    then have q4: "q \<in> tracked ?s4" by (simp add: t4)
    have qp: "q \<noteq> ?p" using q fresh by blast
    have "iThreat (refs ?s5 q) = iThreat (refs ?s4 q) + (if iUnitGuid (refs ?s4 q) = v then a else 0)"
      "iUnitGuid (refs ?s5 q) = iUnitGuid (refs ?s4 q)"
      using p45 q4 by (simp_all add: Post_def)
    then have th: "iThreat (refs ?s5 q) = iThreat (refs s q)"
      and gu: "iUnitGuid (refs ?s5 q) = iUnitGuid (refs s q)"
      using old4 [OF q] unt [OF q] by simp_all
    show "q \<in> tracked ?s5" using q by (simp add: t4)
    show "q \<in> set (iThreatList ?s5) \<longleftrightarrow> q \<in> set (iThreatList s)"
      using qp by (simp add: HostileReference_addThreat_fields f4)
    show "iUnitGuid (refs ?s5 q) = iUnitGuid (refs s q)" by (rule gu)
    show "iThreat (refs ?s5 q) = iThreat (refs s q) + (if iUnitGuid (refs s q) = v then a else 0)"
      using th unt [OF q] by simp
  next
    fix q assume "q \<in> tracked ?s5 - tracked s"
    then have "q = ?p" by (auto simp: t4)
    moreover have "iThreat (refs ?s5 ?p) = a" "iUnitGuid (refs ?s5 ?p) = v"
      using p45 new4 by (simp_all add: Post_def t4)
    ultimately show "iThreat (refs ?s5 q) = (if iUnitGuid (refs ?s5 q) = v then a else 0)"
      by simp
  qed
  then have P: "Post v a s (created w v a s)" unfolding c by (rule Post_send)
  have in6: "?p \<in> set (iThreatList (created w v a s))"
    by (simp add: c send_def HostileReference_addThreat_fields f4)
  have "?p \<in> tracked (created w v a s)" using in6 by (simp add: tracked_def)
  moreover have "iUnitGuid (refs (created w v a s) ?p) = v"
    by (simp add: c send_def HostileReference_addThreat_fields new4)
  ultimately have "tracked_ref (created w v a s) v \<noteq> None"
    by (auto simp: tracked_ref_None)
  then show ?thesis using P in6 fresh by simp
qed

lemma Post_wf: "Post v a s s' \<Longrightarrow> wf_sets s'"
  by (simp add: Post_def)

lemma tracked_ref_move:
  assumes "wf_sets s" and "p \<in> set (iThreatList s)" and "tracked_ref s v \<noteq> None"
  shows "tracked_ref (setOnlineOfflineState w p False s) v \<noteq> None"
proof -
  obtain q where "q \<in> tracked s" "iUnitGuid (refs s q) = v"
    using assms(3) by (auto simp: tracked_ref_None)
  then have "q \<in> tracked (setOnlineOfflineState w p False s)"
    "iUnitGuid (refs (setOnlineOfflineState w p False s) q) = v"
    using wf_sets_move [OF assms(1,2), of w] by (simp_all add: setOnlineOfflineState_False_fields)
  then show ?thesis by (auto simp: tracked_ref_None)
qed

lemma addThreatDirectly_Post:
  assumes "wf_sets s" and "0 \<le> a" and "addThreatDirectly n w v a noNew s = Some s'"
  shows "Post v a s s' \<and> (\<not> noNew \<or> tracked_ref s v \<noteq> None \<longrightarrow> tracked_ref s' v \<noteq> None) \<and>
         (noNew \<and> tracked_ref s v = None \<longrightarrow> s' = s)"
  using assms
proof (induction n arbitrary: v a noNew s s')
  case 0
  then show ?case by simp
next
  case (Suc n)
  show ?case
  proof (cases "tracked_ref s v")
    case (Some p)
    then have s': "s' = HostileReference_addThreat w p a s"
      using Suc.prems(3) by (simp add: addThreatDirectly_tracked)
    have "p \<in> tracked s" "iUnitGuid (refs s p) = v"
      using Some tracked_ref_Some by blast+
    then have P: "Post v a s s'"
      unfolding s' using Suc.prems(1,2) by (intro Post_addThreat_tracked)
    then show ?thesis
      using Some Post_tracked_after [OF P] by simp
  next
    case None
    show ?thesis
    proof (cases noNew)
      case True
      then have "s' = s"
        using Suc.prems(3) None by (simp add: addThreatDirectly_untracked)
      then show ?thesis
        using True None Suc.prems(1) by (simp add: Post_refl_untracked)
    next
      case False
      let ?c = "created w v a s"
      let ?p = "new_address s"
      have c: "Post v a s ?c" "?p \<in> set (iThreatList ?c)" "?p \<notin> tracked s"
        "tracked_ref ?c v \<noteq> None"
        using Post_create [OF Suc.prems(1) None Suc.prems(2), of w] by simp_all
      have wc: "wf_sets ?c" using c(1) by (rule Post_wf)
      obtain s7 where s7: "(case propagates w v of
                Some victim_owner \<Rightarrow>
                  ThreatManager_addThreat n w (Some victim_owner) 0 False 0 None False ?c
              | None \<Rightarrow> Some ?c) = Some s7"
        and s': "s' = (if IsOfflineTarget w v \<or> (IsPlayer w v \<and> IsGameMaster w v)
                  then setOnlineOfflineState w ?p False s7 else s7)"
        using Suc.prems(3) None False
        by (auto simp: addThreatDirectly_untracked split: option.splits)
      have "\<exists>m. Post m 0 ?c s7"
      proof (cases "propagates w v")
        case None
        then have "s7 = ?c" using s7 by simp
        then show ?thesis using wc Post_refl_zero by blast
      next
        case (Some m)
        then have r: "ThreatManager_addThreat n w (Some m) 0 False 0 None False ?c = Some s7"
          using s7 by simp
        show ?thesis
        proof (cases "m = getOwner w \<or> (IsPlayer w m \<and> IsGameMaster w m) \<or> \<not> IsAlive w m \<or>
            \<not> ownerIsAlive w")
          case True
          then have "s7 = ?c" using r by (simp add: ThreatManager_addThreat_zero)
          then show ?thesis using wc Post_refl_zero by blast
        next
          case False
          then have "addThreatDirectly n w m 0 False ?c = Some s7"
            using r by (auto simp: ThreatManager_addThreat_zero split: if_splits)
          from Suc.IH [OF wc _ this] show ?thesis by auto
        qed
      qed
      then obtain m where m: "Post m 0 ?c s7" by blast
      have P7: "Post v a s s7"
        using c(1) m c(4) by (rule Post_compose_zero)
      have in7: "?p \<in> set (iThreatList s7)"
        using m c(2) by (simp add: Post_def tracked_def)
      have t7: "tracked_ref s7 v \<noteq> None"
        using Post_tracked_after [OF m c(4)] .
      have w7: "wf_sets s7" using m by (rule Post_wf)
      show ?thesis
      proof (cases "IsOfflineTarget w v \<or> (IsPlayer w v \<and> IsGameMaster w v)")
        case True
        then have e: "s' = setOnlineOfflineState w ?p False s7" using s' by auto
        show ?thesis
          unfolding e using Post_move [OF P7 in7 c(3)] tracked_ref_move [OF w7 in7 t7] False
          by simp
      next
        case False
        then have "s' = s7" using s' by auto
        then show ?thesis using P7 t7 \<open>\<not> noNew\<close> by simp
      qed
    qed
  qed
qed

lemma addThreatDirectly_returns:
  assumes "\<forall>u m. GetMaster w u = Some m \<longrightarrow> rank m < (rank u :: nat)" and "rank v < n"
  shows "addThreatDirectly n w v a noNew s \<noteq> None"
  using assms(2)
proof (induction n arbitrary: v a noNew s)
  case 0
  then show ?case by simp
next
  case (Suc n)
  show ?case
  proof (cases "tracked_ref s v")
    case (Some p)
    then show ?thesis by (simp add: addThreatDirectly_tracked)
  next
    case None
    show ?thesis
    proof (cases "propagates w v")
      case None
      then show ?thesis
        using \<open>tracked_ref s v = None\<close> by (simp add: addThreatDirectly_untracked)
    next
      case (Some m)
      then have "GetMaster w v = Some m"
        by (auto simp: propagates_def split: option.splits if_splits)
      then have "rank m < n" using assms(1) Suc.prems by fastforce
      then have "addThreatDirectly n w m 0 False (created w v a s) \<noteq> None"
        by (rule Suc.IH)
      then have "ThreatManager_addThreat n w (Some m) 0 False 0 None False (created w v a s) \<noteq> None"
        by (auto simp: ThreatManager_addThreat_zero)
      then show ?thesis
        using \<open>tracked_ref s v = None\<close> Some
        by (auto simp: addThreatDirectly_untracked)
    qed
  qed
qed

lemma Post_registered_threat:
  assumes "Post u a s s'"
  shows "registered_threat s' x =
           registered_threat s x + (if x = u \<and> tracked_ref s' x \<noteq> None then a else 0)"
proof (cases "tracked_ref s x")
  case (Some p)
  then have p: "p \<in> tracked s" "iUnitGuid (refs s p) = x"
    using tracked_ref_Some by blast+
  then have p': "p \<in> tracked s'" "iUnitGuid (refs s' p) = x"
    "iThreat (refs s' p) = iThreat (refs s p) + (if x = u then a else 0)"
    using assms by (simp_all add: Post_def)
  then have "tracked_ref s' x = Some p"
    using assms by (intro tracked_ref_unique) (simp_all add: Post_def)
  then show ?thesis
    using Some p'(3) by (simp add: registered_threat_def)
next
  case None
  show ?thesis
  proof (cases "tracked_ref s' x")
    case n': None
    then show ?thesis using None by (simp add: registered_threat_def)
  next
    case (Some q)
    then have q: "q \<in> tracked s'" "iUnitGuid (refs s' q) = x"
      using tracked_ref_Some by blast+
    have "q \<notin> tracked s"
    proof
      assume "q \<in> tracked s"
      then have "iUnitGuid (refs s q) = x" using assms q(2) by (simp add: Post_def)
      then show False using None \<open>q \<in> tracked s\<close> by (simp add: tracked_ref_None)
    qed
    then have "iThreat (refs s' q) = (if x = u then a else 0)"
      using assms q by (simp add: Post_def)
    then show ?thesis
      using None Some by (simp add: registered_threat_def)
  qed
qed

lemma ThreatManager_addThreat_redirected:
  assumes "v \<noteq> getOwner w" and "\<not> (IsPlayer w v \<and> IsGameMaster w v)"
    and "IsAlive w v" and "ownerIsAlive w"
    and "0 < CalcThreat w v threat crit schoolMask threatSpell assist"
    and "\<not> IsIgnoringMisdirection w"
    and "GetThreatRedirectionTarget w v = Some r" and "r \<noteq> getOwner w" and "IsAlive w r"
  shows "ThreatManager_addThreat n w (Some v) threat crit schoolMask threatSpell assist s =
    (case addThreatDirectly n w r (CalcThreat w v threat crit schoolMask threatSpell assist) False s of
       None \<Rightarrow> None
     | Some s1 \<Rightarrow>
         addThreatDirectly n w v 0
           (case threatSpell of Some spell \<Rightarrow> SPELL_ATTR_EX_NO_THREAT spell | None \<Rightarrow> False) s1)"
  using assms by (auto simp: ThreatManager_addThreat.simps Let_def)

text \<open>Claim C9, amended. The call passes the guards (the victim \<open>v\<close> is not the owner, not a
  game master, both are alive), the adjusted threat is positive, the owner does not ignore
  redirection and \<open>v\<close> has a redirection target \<open>r\<close>, alive, not the owner and not \<open>v\<close>
  itself. On a well-formed manager, with fuel for the chains of masters, the call returns;
  the threat registered for \<open>r\<close> has grown by the full adjusted amount and \<open>r\<close> is
  tracked; the threat registered for \<open>v\<close> has not changed; and \<open>v\<close> is tracked afterwards
  if it was tracked before or the spell does not have the no-threat attribute.\<close>

theorem addThreat_redirection:
  assumes "v \<noteq> getOwner w" and "\<not> (IsPlayer w v \<and> IsGameMaster w v)"
    and "IsAlive w v" and "ownerIsAlive w"
    and "0 < CalcThreat w v threat crit schoolMask threatSpell assist"
    and "\<not> IsIgnoringMisdirection w"
    and "GetThreatRedirectionTarget w v = Some r" and "r \<noteq> getOwner w" and "IsAlive w r"
    and "r \<noteq> v"
    and "wf_sets s"
    and "\<forall>u m. GetMaster w u = Some m \<longrightarrow> rank m < (rank u :: nat)"
    and "rank r < fuel" and "rank v < fuel"
  shows "\<exists>s'. ThreatManager_addThreat fuel w (Some v) threat crit schoolMask threatSpell assist s = Some s' \<and>
      registered_threat s' r =
        registered_threat s r + CalcThreat w v threat crit schoolMask threatSpell assist \<and>
      tracked_ref s' r \<noteq> None \<and>
      registered_threat s' v = registered_threat s v \<and>
      (tracked_ref s v \<noteq> None \<or>
       \<not> (case threatSpell of Some spell \<Rightarrow> SPELL_ATTR_EX_NO_THREAT spell | None \<Rightarrow> False) \<longrightarrow>
         tracked_ref s' v \<noteq> None \<and> HasThreat s' (Some v) True)"
proof -
  let ?calc = "CalcThreat w v threat crit schoolMask threatSpell assist"
  let ?noNew = "case threatSpell of Some spell \<Rightarrow> SPELL_ATTR_EX_NO_THREAT spell | None \<Rightarrow> False"
  obtain s1 where s1: "addThreatDirectly fuel w r ?calc False s = Some s1"
    using addThreatDirectly_returns [OF assms(12,13), of ?calc False s] by auto
  have c0: "0 \<le> ?calc" using assms(5) by simp
  have P1: "Post r ?calc s s1" and tr1: "tracked_ref s1 r \<noteq> None"
    using addThreatDirectly_Post [OF assms(11) c0 s1] by simp_all
  have w1: "wf_sets s1" using P1 by (rule Post_wf)
  obtain s' where s': "addThreatDirectly fuel w v 0 ?noNew s1 = Some s'"
    using addThreatDirectly_returns [OF assms(12,14), of 0 ?noNew s1] by auto
  have P2: "Post v 0 s1 s'"
    and tr2: "\<not> ?noNew \<or> tracked_ref s1 v \<noteq> None \<longrightarrow> tracked_ref s' v \<noteq> None"
    using addThreatDirectly_Post [OF w1 _ s'] by simp_all
  have run: "ThreatManager_addThreat fuel w (Some v) threat crit schoolMask threatSpell assist s = Some s'"
    using ThreatManager_addThreat_redirected [OF assms(1-9), of fuel s] s1 s' by simp
  have r1: "registered_threat s1 r = registered_threat s r + ?calc"
    using Post_registered_threat [OF P1, of r] tr1 by simp
  have r2: "registered_threat s' r = registered_threat s1 r"
    using Post_registered_threat [OF P2, of r] by simp
  have v1: "registered_threat s1 v = registered_threat s v"
    using Post_registered_threat [OF P1, of v] assms(10) by simp
  have v2: "registered_threat s' v = registered_threat s1 v"
    using Post_registered_threat [OF P2, of v] by simp
  have tr: "tracked_ref s' r \<noteq> None"
    using Post_tracked_after [OF P2 tr1] .
  have tv: "tracked_ref s v \<noteq> None \<or> \<not> ?noNew \<longrightarrow> tracked_ref s' v \<noteq> None"
    using tr2 Post_tracked_after [OF P1, of v] by blast
  have has: "tracked_ref s' v \<noteq> None \<longrightarrow> HasThreat s' (Some v) True"
    by (auto simp: HasThreat_def tracked_ref_def Let_def split: option.splits)
  show ?thesis
    using run r1 r2 v1 v2 tr tv has by auto
qed

text \<open>Unit 13 redirects its threat to unit 12; spell 7 has the no-threat attribute.\<close>

definition redirect_world :: World where
  "redirect_world = example_world
     \<lparr>GetThreatRedirectionTarget := (\<lambda>u. if u = 13 then Some 12 else None)\<rparr>"

definition no_threat_spell :: SpellEntry where
  "no_threat_spell = \<lparr>Id = 7, SPELL_ATTR_EX_NO_THREAT = True\<rparr>"

lemma wf_sets_example: "wf_sets example_state"
  by (simp add: wf_sets_def tracked_def example_state_def HostileReference_new_def inj_on_def)

lemma example_tracked:
  "tracked_ref example_state 12 = Some 5" "tracked_ref example_state 13 = None"
  "tracked_ref example_state 11 = Some 4"
  "registered_threat example_state 12 = 135" "registered_threat example_state 13 = 0"
  by (simp_all add: registered_threat_def tracked_ref_def getReferenceByTarget_def
      example_state_def HostileReference_new_def)

lemma redirect_world_fields:
  "getOwner redirect_world = 10" "\<not> IsPlayer redirect_world u" "IsAlive redirect_world u"
  "ownerIsAlive redirect_world" "\<not> IsIgnoringMisdirection redirect_world"
  "GetThreatRedirectionTarget redirect_world 13 = Some 12"
  "GetMaster redirect_world u = None"
  "CalcThreat redirect_world 13 50 False 0 sp False = 50"
  by (simp_all add: redirect_world_def example_world_def CalcThreat_def split: option.splits)

theorem addThreat_redirection_witness:
  "wf_sets example_state \<and>
   CalcThreat redirect_world 13 50 False 0 None False = 50 \<and>
   GetThreatRedirectionTarget redirect_world 13 = Some 12 \<and>
   tracked_ref example_state 13 = None \<and> registered_threat example_state 12 = 135 \<and>
   (\<exists>s'. ThreatManager_addThreat 1 redirect_world (Some 13) 50 False 0 None False example_state = Some s' \<and>
         registered_threat s' 12 = 185 \<and> registered_threat s' 13 = 0 \<and>
         HasThreat s' (Some 13) True)"
proof -
  have h: "(13 :: nat) \<noteq> getOwner redirect_world"
    "\<not> (IsPlayer redirect_world 13 \<and> IsGameMaster redirect_world 13)"
    "IsAlive redirect_world 13" "ownerIsAlive redirect_world"
    "0 < CalcThreat redirect_world 13 50 False 0 None False"
    "\<not> IsIgnoringMisdirection redirect_world"
    "GetThreatRedirectionTarget redirect_world 13 = Some 12"
    "(12 :: nat) \<noteq> getOwner redirect_world" "IsAlive redirect_world 12" "(12 :: nat) \<noteq> 13"
    "\<forall>u m. GetMaster redirect_world u = Some m \<longrightarrow> (\<lambda>_. 0 :: nat) m < (\<lambda>_. 0) u"
    "(\<lambda>_. 0 :: nat) 12 < 1" "(\<lambda>_. 0 :: nat) 13 < 1"
    by (simp_all add: redirect_world_fields)
  obtain s' where
    "ThreatManager_addThreat 1 redirect_world (Some 13) 50 False 0 None False example_state = Some s'"
    "registered_threat s' 12 =
       registered_threat example_state 12 + CalcThreat redirect_world 13 50 False 0 None False"
    "registered_threat s' 13 = registered_threat example_state 13"
    "HasThreat s' (Some 13) True"
    using addThreat_redirection [OF h(1-10) wf_sets_example h(11-13)] by auto
  then have "ThreatManager_addThreat 1 redirect_world (Some 13) 50 False 0 None False example_state = Some s' \<and>
         registered_threat s' 12 = 185 \<and> registered_threat s' 13 = 0 \<and>
         HasThreat s' (Some 13) True"
    by (simp add: redirect_world_fields example_tracked)
  then show ?thesis
    using wf_sets_example redirect_world_fields(6) redirect_world_fields(8) [of None]
      example_tracked(2,4) by blast
qed

text \<open>Claim C9 as stated fails for a spell with the no-threat attribute and a victim
  without reference: the redirect target 12 receives the 50, and
  \<^verbatim>\<open>addThreatDirectly(victim, 0, true)\<close> creates nothing, so unit 13 is not tracked.\<close>

theorem addThreat_redirection_counterexample:
  "CalcThreat redirect_world 13 50 False 0 (Some no_threat_spell) False = 50 \<and>
   \<not> IsIgnoringMisdirection redirect_world \<and>
   GetThreatRedirectionTarget redirect_world 13 = Some 12 \<and>
   IsAlive redirect_world 12 \<and> getOwner redirect_world \<noteq> 12 \<and>
   map_option (\<lambda>s'. (registered_threat s' 12, tracked_ref s' 13, HasThreat s' (Some 13) True))
     (ThreatManager_addThreat 1 redirect_world (Some 13) 50 False 0 (Some no_threat_spell) False
        example_state) = Some (185, None, False)"
proof -
  let ?s1 = "HostileReference_addThreat redirect_world 5 50 example_state"
  have a: "addThreatDirectly (Suc 0) redirect_world 12 50 False example_state = Some ?s1"
    by (simp add: addThreatDirectly_tracked example_tracked)
  have P: "Post 12 50 example_state ?s1"
    using addThreatDirectly_Post [OF wf_sets_example _ a] by simp
  have t13: "tracked_ref ?s1 13 = None"
    using example_tracked(2)
    by (simp add: tracked_ref_None HostileReference_addThreat_fields)
  have b: "addThreatDirectly (Suc 0) redirect_world 13 0 True ?s1 = Some ?s1"
    using t13 by (simp add: addThreatDirectly_untracked)
  have run: "ThreatManager_addThreat 1 redirect_world (Some 13) 50 False 0 (Some no_threat_spell) False
        example_state = Some ?s1"
    using a b
    by (simp add: ThreatManager_addThreat.simps redirect_world_fields no_threat_spell_def)
  have r12: "registered_threat ?s1 12 = 185"
    using Post_registered_threat [OF P, of 12] Post_tracked_after [OF P, of 12]
    by (simp add: example_tracked)
  have h13: "\<not> HasThreat ?s1 (Some 13) True"
    using t13 by (simp add: HasThreat_def tracked_ref_def Let_def split: option.splits)
  show ?thesis
    using run r12 t13 h13 by (simp add: redirect_world_fields)
qed

section \<open>The remaining operations of ThreatManager\<close>

text \<open>\<^verbatim>\<open>ThreatContainer::clearReferences\<close> unlinks and deletes every reference of a list;
  \<^verbatim>\<open>ThreatManager::clearReferences\<close> does so for both containers.\<close>

definition ThreatContainer_clearReferences :: "nat list \<Rightarrow> ThreatManager \<Rightarrow> ThreatManager" where
  "ThreatContainer_clearReferences threatList s = fold (\<lambda>i t. delete_ref i (unlink i t)) threatList s"

definition ThreatManager_clearReferences :: "32 word \<Rightarrow> ThreatManager \<Rightarrow> ThreatManager" where
  "ThreatManager_clearReferences IN_MILLISECONDS s =
    (let s1 = (ThreatContainer_clearReferences (iThreatList s) s)\<lparr>iThreatList := []\<rparr>;
         s2 = (ThreatContainer_clearReferences (offlineThreatList s1) s1)\<lparr>offlineThreatList := []\<rparr>
     in s2\<lparr>iCurrentVictim := None, iUpdateTimer := THREAT_UPDATE_INTERVAL IN_MILLISECONDS\<rparr>)"

definition ClearAllThreat :: "World \<Rightarrow> 32 word \<Rightarrow> ThreatManager \<Rightarrow> ThreatManager" where
  "ClearAllThreat w IN_MILLISECONDS s =
    ThreatManager_clearReferences IN_MILLISECONDS
      (if CanHaveThreatList w \<and> \<not> isThreatListEmpty s then send HeituClearThreatList s else s)"

text \<open>\<^verbatim>\<open>TauntUpdate\<close>: the taunt auras of the owner, in order, give their casters the states
  TAUNTED, TAUNTED + 1, ...; a later aura of the same caster overwrites an earlier one.\<close>

fun tauntStates_of :: "nat \<Rightarrow> nat list \<Rightarrow> (nat \<rightharpoonup> nat) \<Rightarrow> (nat \<rightharpoonup> nat)" where
  "tauntStates_of state [] m = m"
| "tauntStates_of state (caster # auras) m = tauntStates_of (state + 1) auras (m(caster \<mapsto> state))"

fun TauntUpdate_loop ::
  "World \<Rightarrow> (nat \<rightharpoonup> nat) \<Rightarrow> nat list \<Rightarrow> ThreatManager \<Rightarrow> error + ThreatManager" where
  "TauntUpdate_loop w tauntStates [] s = Inr s"
| "TauntUpdate_loop w tauntStates (ref # rest) s =
    (if m_tauntState (refs s ref) = STATE_FIXATED then TauntUpdate_loop w tauntStates rest s
     else
       (case iRefTo (refs s ref) of
          None \<Rightarrow> Inl NullDereference
        | Some target \<Rightarrow>
           (case tauntStates target of
              Some state \<Rightarrow> TauntUpdate_loop w tauntStates rest (SetTauntState ref state s)
            | None \<Rightarrow>
                if \<not> iRefFrom (refs s ref) then Inl NullDereference
                else if HasDetauntAura w target
                  then TauntUpdate_loop w tauntStates rest (SetTauntState ref STATE_DETAUNTED s)
                else TauntUpdate_loop w tauntStates rest (SetTauntState ref STATE_NONE s))))"

definition TauntUpdate :: "World \<Rightarrow> ThreatManager \<Rightarrow> error + ThreatManager" where
  "TauntUpdate w s =
    (case TauntUpdate_loop w (tauntStates_of STATE_TAUNTED (tauntAuraCasters w) Map.empty)
            (iThreatList s) s of
       Inl e \<Rightarrow> Inl e
     | Inr s1 \<Rightarrow> Inr (setDirty True s1))"

definition FixateTarget :: "World \<Rightarrow> nat option \<Rightarrow> ThreatManager \<Rightarrow> error + ThreatManager" where
  "FixateTarget w victim s =
    (let fixateRef = getReferenceByTarget (refs s) (iThreatList s) victim;
         s1 = (case fixateRef of Some p \<Rightarrow> SetTauntState p STATE_FIXATED s | None \<Rightarrow> s);
         s2 = fold (\<lambda>ref t. if Some ref \<noteq> fixateRef \<and> m_tauntState (refs t ref) = STATE_FIXATED
                             then SetTauntState ref STATE_NONE t else t) (iThreatList s1) s1
     in TauntUpdate w s2)"

definition setCurrentVictimByTarget :: "nat option \<Rightarrow> ThreatManager \<Rightarrow> ThreatManager" where
  "setCurrentVictimByTarget target s =
    (if (case iCurrentVictim s of Some v \<Rightarrow> target = iRefTo (refs s v) | None \<Rightarrow> False) then s
     else
       (case getReferenceByTarget (refs s) (iThreatList s) target of
          Some ref \<Rightarrow> setCurrentVictim (Some ref) s
        | None \<Rightarrow> s))"

definition out_of_range :: "World \<Rightarrow> HostileReference \<Rightarrow> bool" where
  "out_of_range w r = (case iRefTo r of Some target \<Rightarrow> GetDistance w target > 60 | None \<Rightarrow> False)"

definition DeleteOutOfRangeReferences :: "World \<Rightarrow> ThreatManager \<Rightarrow> ThreatManager" where
  "DeleteOutOfRangeReferences w s =
    (let m_refs = filter (\<lambda>ref. out_of_range w (refs s ref)) (iThreatList s) @
                  filter (\<lambda>ref. out_of_range w (refs s ref)) (offlineThreatList s)
     in fold (\<lambda>ref t. delete_ref ref (removeReference w ref t)) m_refs s)"

definition SetTargetSuppressed :: "World \<Rightarrow> nat option \<Rightarrow> ThreatManager \<Rightarrow> ThreatManager" where
  "SetTargetSuppressed w target s =
    (case getReferenceByTarget (refs s) (iThreatList s) target of
       Some ref \<Rightarrow> SetSuppressabilityToggle ref (SetHostileState w ref STATE_SUPPRESSED s)
     | None \<Rightarrow> s)"

section \<open>Reachable states of a manager\<close>

text \<open>The states a manager goes through: built by the constructor, then changed by the
  operations of the manager and by those of its live references, each with whatever the
  world is at that moment. An operation that aborts or does not return makes no step.
  \<^verbatim>\<open>setCurrentVictim\<close> is a step only inside the operations that call it.\<close>

inductive reachable :: "ThreatManager \<Rightarrow> bool" where
  constructed: "reachable (ThreatManager_new ms)"
| addThreat:
    "reachable s \<Longrightarrow>
     ThreatManager_addThreat fuel w victim threat crit schoolMask threatSpell assist s = Some s' \<Longrightarrow>
     reachable s'"
| modifyThreatPercent: "reachable s \<Longrightarrow> reachable (modifyThreatPercent w victim pct s)"
| modifyAllThreatPercent:
    "reachable s \<Longrightarrow> modifyAllThreatPercent w pct s = Some s' \<Longrightarrow> reachable s'"
| getHostileTarget: "reachable s \<Longrightarrow> getHostileTarget w s = Inr (target, s') \<Longrightarrow> reachable s'"
| ClearAllThreat: "reachable s \<Longrightarrow> reachable (ClearAllThreat w ms s)"
| clearReferences: "reachable s \<Longrightarrow> reachable (ThreatManager_clearReferences ms s)"
| TauntUpdate: "reachable s \<Longrightarrow> TauntUpdate w s = Inr s' \<Longrightarrow> reachable s'"
| FixateTarget: "reachable s \<Longrightarrow> FixateTarget w victim s = Inr s' \<Longrightarrow> reachable s'"
| setCurrentVictimByTarget: "reachable s \<Longrightarrow> reachable (setCurrentVictimByTarget target s)"
| isNeedUpdateToClient: "reachable s \<Longrightarrow> reachable (snd (isNeedUpdateToClient ms time s))"
| DeleteOutOfRangeReferences: "reachable s \<Longrightarrow> reachable (DeleteOutOfRangeReferences w s)"
| SetTargetSuppressed: "reachable s \<Longrightarrow> reachable (SetTargetSuppressed w target s)"
| ref_addThreat:
    "reachable s \<Longrightarrow> p \<in> set (allocated s) \<Longrightarrow> reachable (HostileReference_addThreat w p d s)"
| ref_updateOnlineStatus:
    "reachable s \<Longrightarrow> p \<in> set (allocated s) \<Longrightarrow> updateOnlineStatus w p s = Inr s' \<Longrightarrow> reachable s'"
| ref_setOnlineOfflineState:
    "reachable s \<Longrightarrow> p \<in> set (allocated s) \<Longrightarrow> reachable (setOnlineOfflineState w p b s)"
| ref_setAccessibleState:
    "reachable s \<Longrightarrow> p \<in> set (allocated s) \<Longrightarrow> reachable (setAccessibleState w p b s)"
| ref_SetHostileState:
    "reachable s \<Longrightarrow> p \<in> set (allocated s) \<Longrightarrow> reachable (SetHostileState w p state s)"
| ref_removeReference:
    "reachable s \<Longrightarrow> p \<in> set (allocated s) \<Longrightarrow> reachable (delete_ref p (removeReference w p s))"
| ref_setFadeoutThreatReduction:
    "reachable s \<Longrightarrow> p \<in> set (allocated s) \<Longrightarrow> reachable (setFadeoutThreatReduction w p v s)"
| ref_resetFadeoutThreatReduction:
    "reachable s \<Longrightarrow> p \<in> set (allocated s) \<Longrightarrow> reachable (resetFadeoutThreatReduction w p s)"

text \<open>The invariant: a current victim that is not null is a member of the reachable set.\<close>

definition victim_ok :: "ThreatManager \<Rightarrow> bool" where
  "victim_ok s = (\<forall>v. iCurrentVictim s = Some v \<longrightarrow> v \<in> set (iThreatList s))"

section \<open>The current victim stays in the reachable set\<close>

lemma victim_ok_same:
  "victim_ok s \<Longrightarrow> iThreatList s' = iThreatList s \<Longrightarrow> iCurrentVictim s' = iCurrentVictim s \<Longrightarrow>
   victim_ok s'"
  by (simp add: victim_ok_def)



lemma victim_ok_upd_ref [simp]: "victim_ok (upd_ref p f s) = victim_ok s"
  by (simp add: victim_ok_def upd_ref_def)

lemma victim_ok_setDirty [simp]: "victim_ok (setDirty b s) = victim_ok s"
  by (simp add: victim_ok_def setDirty_def)

lemma victim_ok_send [simp]: "victim_ok (send pkt s) = victim_ok s"
  by (simp add: victim_ok_def send_def)

lemma victim_ok_delete_ref [simp]: "victim_ok (delete_ref p s) = victim_ok s"
  by (simp add: victim_ok_def delete_ref_def)

lemma victim_ok_cleared [simp]: "victim_ok (setCurrentVictim None s)"
  by (simp add: victim_ok_def setCurrentVictim_def)




lemma victim_ok_offline [simp]:
  "victim_ok (offline_addReference p s) = victim_ok s"
  "victim_ok (offline_remove p s) = victim_ok s"
  by (simp_all add: victim_ok_def offline_addReference_def offline_remove_def)

lemma iCurrentVictim_simps [simp]:
  "iCurrentVictim (setDirty b s) = iCurrentVictim s"
  "iCurrentVictim (send pkt s) = iCurrentVictim s"
  "iCurrentVictim (setCurrentVictim q s) = q"
  by (simp_all add: setDirty_def send_def setCurrentVictim_def split: option.splits)




















lemma victim_ok_SetTauntState [simp]: "victim_ok (SetTauntState p st s) = victim_ok s"
  by (simp add: SetTauntState_def)













lemma ThreatManager_addThreat_calls:
  "ThreatManager_addThreat n w victim threat crit schoolMask threatSpell assist s = Some s' \<Longrightarrow>
   s' = s \<or>
   (\<exists>v a b. addThreatDirectly n w v a b s = Some s') \<or>
   (\<exists>r c s1 v b. addThreatDirectly n w r c False s = Some s1 \<and> addThreatDirectly n w v 0 b s1 = Some s')"
  by (auto simp: ThreatManager_addThreat.simps Let_def split: option.splits if_splits)









section \<open>Reachable states are well formed\<close>

text \<open>What the theorems above assume of a manager holds in every reachable state: no
  reference twice in the two sets, the live references are the tracked ones, one reference
  per unit, no negative threat, every tracked reference linked to the manager, and the
  online flag of a reference tells which set holds it.\<close>

definition consistent :: "ThreatManager \<Rightarrow> bool" where
  "consistent s =
    (distinct (iThreatList s @ offlineThreatList s) \<and>
     set (allocated s) = tracked s \<and>
     inj_on (\<lambda>p. iUnitGuid (refs s p)) (tracked s) \<and>
     (\<forall>p \<in> tracked s. 0 \<le> iThreat (refs s p) \<and> iRefFrom (refs s p)) \<and>
     (\<forall>p \<in> set (iThreatList s). m_online (refs s p)) \<and>
     (\<forall>p \<in> set (offlineThreatList s). \<not> m_online (refs s p)))"

text \<open>\<open>unchanged_sets s s'\<close>: the step changes neither the sets, nor the live addresses,
  nor unit and online flag of any reference, severs no link and makes no threat negative.\<close>

definition unchanged_sets :: "ThreatManager \<Rightarrow> ThreatManager \<Rightarrow> bool" where
  "unchanged_sets s s' =
    (iThreatList s' = iThreatList s \<and> offlineThreatList s' = offlineThreatList s \<and>
     allocated s' = allocated s \<and>
     (\<forall>q. iUnitGuid (refs s' q) = iUnitGuid (refs s q) \<and>
          m_online (refs s' q) = m_online (refs s q) \<and>
          (iRefFrom (refs s q) \<longrightarrow> iRefFrom (refs s' q)) \<and>
          (0 \<le> iThreat (refs s q) \<longrightarrow> 0 \<le> iThreat (refs s' q))))"

lemma unchanged_sets_refl: "unchanged_sets s s"
  by (simp add: unchanged_sets_def)

lemma unchanged_sets_trans:
  "unchanged_sets s t \<Longrightarrow> unchanged_sets t u \<Longrightarrow> unchanged_sets s u"
  by (simp add: unchanged_sets_def)

lemma consistent_unchanged:
  assumes "consistent s" and "unchanged_sets s s'"
  shows "consistent s'"
proof -
  have g: "(\<lambda>p. iUnitGuid (refs s' p)) = (\<lambda>p. iUnitGuid (refs s p))"
    using assms(2) by (simp add: unchanged_sets_def)
  have t: "tracked s' = tracked s"
    using assms(2) by (simp add: unchanged_sets_def tracked_def)
  show ?thesis
    using assms unfolding consistent_def g t
    by (simp add: unchanged_sets_def)
qed

lemma unchanged_sets_frame: "state_frame s s' \<Longrightarrow> unchanged_sets s s'"
  by (simp add: state_frame_def ref_frame_def unchanged_sets_def)

lemma unchanged_sets_simple:
  "unchanged_sets s (setDirty b s)"
  "unchanged_sets s (send pkt s)"
  "unchanged_sets s (setCurrentVictim q s)"
  "unchanged_sets s (SetTauntState p st s)"
  "unchanged_sets s (SetSuppressabilityToggle p s)"
  "unchanged_sets s (upd_ref p (\<lambda>r. r\<lparr>iFadeoutThreadReduction := v\<rparr>) s)"
  "unchanged_sets s (upd_ref p (\<lambda>r. r\<lparr>iAccessible := b\<rparr>) s)"
  "unchanged_sets s (upd_ref p (\<lambda>r. r\<lparr>iRefTo := x\<rparr>) s)"
  "unchanged_sets s (link p target s)"
  "unchanged_sets s (s\<lparr>iUpdateTimer := t\<rparr>)"
  by (simp_all add: unchanged_sets_def setDirty_def send_def setCurrentVictim_def SetTauntState_def
      SetSuppressabilityToggle_def upd_ref_def link_def split: option.splits)

lemma unchanged_sets_SetHostileState: "unchanged_sets s (SetHostileState w p state s)"
  by (rule unchanged_sets_frame) (rule SetHostileState_ClearSuppressed_loop_frame(1))

lemma unchanged_sets_HostileReference_addThreat:
  "unchanged_sets s (HostileReference_addThreat w p d s)"
  unfolding unchanged_sets_def
  by (auto simp: HostileReference_addThreat_fields HostileReference_addThreat_iThreat clamped_nonneg)

lemma consistent_HostileReference_addThreat:
  "consistent s \<Longrightarrow> consistent (HostileReference_addThreat w p d s)"
  using consistent_unchanged unchanged_sets_HostileReference_addThreat by blast

lemma consistent_SetHostileState:
  "consistent s \<Longrightarrow> consistent (SetHostileState w p state s)"
  using consistent_unchanged unchanged_sets_SetHostileState by blast

lemma setOnlineOfflineState_fields:
  "allocated (setOnlineOfflineState w p b s) = allocated s"
  "iUnitGuid (refs (setOnlineOfflineState w p b s) q) = iUnitGuid (refs s q)"
  "iThreat (refs (setOnlineOfflineState w p b s) q) = iThreat (refs s q)"
  "iRefFrom (refs (setOnlineOfflineState w p b s) q) = iRefFrom (refs s q)"
  "m_online (refs (setOnlineOfflineState w p b s) q) = (if q = p then b else m_online (refs s q))"
  "iThreatList (setOnlineOfflineState w p b s) =
    (if m_online (refs s p) = b \<or> \<not> iRefFrom (refs s p) then iThreatList s
     else if b then iThreatList s @ [p] else removeAll p (iThreatList s))"
  "offlineThreatList (setOnlineOfflineState w p b s) =
    (if m_online (refs s p) = b \<or> \<not> iRefFrom (refs s p) then offlineThreatList s
     else if b then removeAll p (offlineThreatList s) else offlineThreatList s @ [p])"
  by (auto simp: setOnlineOfflineState_def fireStatusChanged_def processThreatEvent_def
      upd_ref_def Let_def setDirty_def setCurrentVictim_def send_def online_remove_def
      offline_addReference_def online_addReference_def offline_remove_def split: option.splits)

lemma consistent_setOnlineOfflineState:
  assumes "consistent s" and "p \<in> tracked s"
  shows "consistent (setOnlineOfflineState w p b s)"
proof -
  let ?s' = "setOnlineOfflineState w p b s"
  have g: "(\<lambda>q. iUnitGuid (refs ?s' q)) = (\<lambda>q. iUnitGuid (refs s q))"
    by (simp add: setOnlineOfflineState_fields)
  have l: "iRefFrom (refs s p)" using assms by (simp add: consistent_def)
  have d: "distinct (iThreatList s)" "distinct (offlineThreatList s)"
    "set (iThreatList s) \<inter> set (offlineThreatList s) = {}"
    using assms(1) by (simp_all add: consistent_def)
  have on: "\<forall>q \<in> set (iThreatList s). m_online (refs s q)"
    and off: "\<forall>q \<in> set (offlineThreatList s). \<not> m_online (refs s q)"
    using assms(1) by (simp_all add: consistent_def)
  show ?thesis
  proof (cases "m_online (refs s p) = b")
    case True
    then have "?s' = s" by (simp add: setOnlineOfflineState_def)
    then show ?thesis using assms(1) by simp
  next
    case False
    show ?thesis
    proof (cases b)
      case True
      then have np: "\<not> m_online (refs s p)" using False by simp
      then have pin: "p \<in> set (offlineThreatList s)" "p \<notin> set (iThreatList s)"
        using assms(2) on by (auto simp: tracked_def)
      have ls: "iThreatList ?s' = iThreatList s @ [p]"
        "offlineThreatList ?s' = removeAll p (offlineThreatList s)"
        using True np l by (simp_all add: setOnlineOfflineState_fields)
      have tr: "tracked ?s' = tracked s" using ls pin by (auto simp: tracked_def)
      have dd: "distinct (iThreatList ?s' @ offlineThreatList ?s')"
        using d pin ls by (auto simp: distinct_removeAll)
      show ?thesis
        using assms(1) dd ls True on off unfolding consistent_def g tr
        by (auto simp: setOnlineOfflineState_fields)
    next
      case F: False
      then have np: "m_online (refs s p)" using False by simp
      then have pin: "p \<in> set (iThreatList s)" "p \<notin> set (offlineThreatList s)"
        using assms(2) off by (auto simp: tracked_def)
      have ls: "iThreatList ?s' = removeAll p (iThreatList s)"
        "offlineThreatList ?s' = offlineThreatList s @ [p]"
        using F np l by (simp_all add: setOnlineOfflineState_fields)
      have tr: "tracked ?s' = tracked s" using ls pin by (auto simp: tracked_def)
      have dd: "distinct (iThreatList ?s' @ offlineThreatList ?s')"
        using d pin ls by (auto simp: distinct_removeAll)
      show ?thesis
        using assms(1) dd ls F on off unfolding consistent_def g tr
        by (auto simp: setOnlineOfflineState_fields)
    qed
  qed
qed

lemma removeReference_fields:
  "allocated (delete_ref p (removeReference w p s)) = removeAll p (allocated s)"
  "iUnitGuid (refs (delete_ref p (removeReference w p s)) q) = iUnitGuid (refs s q)"
  "iThreat (refs (delete_ref p (removeReference w p s)) q) = iThreat (refs s q)"
  "iRefFrom (refs (delete_ref p (removeReference w p s)) q) = iRefFrom (refs s q)"
  "m_online (refs (delete_ref p (removeReference w p s)) q) = m_online (refs s q)"
  "iThreatList (delete_ref p (removeReference w p s)) =
    (if iRefFrom (refs s p) \<and> m_online (refs s p) then removeAll p (iThreatList s)
     else iThreatList s)"
  "offlineThreatList (delete_ref p (removeReference w p s)) =
    (if iRefFrom (refs s p) \<and> \<not> m_online (refs s p) then removeAll p (offlineThreatList s)
     else offlineThreatList s)"
  by (auto simp: removeReference_def delete_ref_def invalidate_def fireStatusChanged_def
      processThreatEvent_def upd_ref_def Let_def setDirty_def setCurrentVictim_def send_def
      online_remove_def offline_remove_def split: option.splits)

lemma consistent_removeReference:
  assumes "consistent s"
  shows "consistent (delete_ref p (removeReference w p s))"
proof -
  let ?s' = "delete_ref p (removeReference w p s)"
  have g: "(\<lambda>q. iUnitGuid (refs ?s' q)) = (\<lambda>q. iUnitGuid (refs s q))"
    by (simp add: removeReference_fields)
  have d: "distinct (iThreatList s)" "distinct (offlineThreatList s)"
    "set (iThreatList s) \<inter> set (offlineThreatList s) = {}"
    using assms(1) by (simp_all add: consistent_def)
  have on: "\<forall>q \<in> set (iThreatList s). m_online (refs s q)"
    and off: "\<forall>q \<in> set (offlineThreatList s). \<not> m_online (refs s q)"
    and li: "\<forall>q \<in> tracked s. iRefFrom (refs s q)"
    and al: "set (allocated s) = tracked s"
    using assms(1) by (simp_all add: consistent_def)
  have tr: "tracked ?s' = tracked s - {p}"
    using on off li by (auto simp: tracked_def removeReference_fields)
  have dd: "distinct (iThreatList ?s' @ offlineThreatList ?s')"
    using d by (auto simp: removeReference_fields distinct_removeAll)
  have inj: "inj_on (\<lambda>q. iUnitGuid (refs s q)) (tracked s - {p})"
    using assms(1) by (auto simp: consistent_def inj_on_def)
  have members: "set (iThreatList ?s') \<subseteq> set (iThreatList s)"
    "set (offlineThreatList ?s') \<subseteq> set (offlineThreatList s)"
    by (auto simp: removeReference_fields)
  show ?thesis
    unfolding consistent_def g tr
    using dd inj al assms(1) members on off
    by (auto simp: removeReference_fields consistent_def)
qed

lemma consistent_created:
  assumes "consistent s" and "tracked_ref s v = None"
  shows "consistent (created w v a s)"
    and "new_address s \<in> tracked (created w v a s)"
    and "set (allocated s) \<subseteq> set (allocated (created w v a s))"
proof -
  let ?p = "new_address s"
  let ?s4 = "online_addReference ?p (snd (new_HostileReference v 0 s))"
  have fresh: "?p \<notin> tracked s"
    using assms(1) new_address_fresh [of s] by (simp add: consistent_def)
  have nov: "\<forall>q \<in> tracked s. iUnitGuid (refs s q) \<noteq> v"
    using assms(2) by (simp add: tracked_ref_None)
  have tr: "tracked ?s4 = insert ?p (tracked s)"
    by (auto simp: tracked_def online_addReference_def new_HostileReference_def Let_def)
  have c4: "consistent ?s4"
    unfolding consistent_def tr
    using assms(1) fresh nov
    by (auto simp: consistent_def tracked_def online_addReference_def new_HostileReference_def
        Let_def HostileReference_new_def inj_on_def)
  have c: "created w v a s = send (AggroLinkingEvent v) (HostileReference_addThreat w ?p a ?s4)"
    by (simp add: created_def new_HostileReference_def Let_def)
  have "consistent (HostileReference_addThreat w ?p a ?s4)"
    using c4 by (rule consistent_HostileReference_addThreat)
  then show "consistent (created w v a s)"
    unfolding c using consistent_unchanged unchanged_sets_simple(2) by blast
  show "new_address s \<in> tracked (created w v a s)"
    unfolding c using tr by (simp add: tracked_def send_def HostileReference_addThreat_fields)
  show "set (allocated s) \<subseteq> set (allocated (created w v a s))"
    unfolding c
    by (auto simp: send_def HostileReference_addThreat_fields online_addReference_def
        new_HostileReference_def Let_def)
qed

lemma consistent_addThreatDirectly:
  "addThreatDirectly n w v a noNew s = Some s' \<Longrightarrow> consistent s \<Longrightarrow>
   consistent s' \<and> set (allocated s) \<subseteq> set (allocated s')"
proof (induction n arbitrary: v a noNew s s')
  case 0
  then show ?case by simp
next
  case (Suc n)
  show ?case
  proof (cases "tracked_ref s v")
    case (Some p)
    then have "s' = HostileReference_addThreat w p a s"
      using Suc.prems(1) by (simp add: addThreatDirectly_tracked)
    then show ?thesis
      using Suc.prems(2)
      by (simp add: consistent_HostileReference_addThreat HostileReference_addThreat_fields)
  next
    case None
    show ?thesis
    proof (cases noNew)
      case True
      then show ?thesis using Suc.prems None by (simp add: addThreatDirectly_untracked)
    next
      case False
      let ?c = "created w v a s"
      obtain s7 where s7: "(case propagates w v of
                Some victim_owner \<Rightarrow>
                  ThreatManager_addThreat n w (Some victim_owner) 0 False 0 None False ?c
              | None \<Rightarrow> Some ?c) = Some s7"
        and s': "s' = (if IsOfflineTarget w v \<or> (IsPlayer w v \<and> IsGameMaster w v)
                  then setOnlineOfflineState w (new_address s) False s7 else s7)"
        using Suc.prems(1) None False
        by (auto simp: addThreatDirectly_untracked split: option.splits)
      note c = consistent_created [OF Suc.prems(2) None, of w a]
      have c7: "consistent s7 \<and> set (allocated ?c) \<subseteq> set (allocated s7)"
      proof (cases "propagates w v")
        case None
        then show ?thesis using s7 c(1) by simp
      next
        case (Some m)
        then have "ThreatManager_addThreat n w (Some m) 0 False 0 None False ?c = Some s7"
          using s7 by simp
        then have "s7 = ?c \<or> addThreatDirectly n w m 0 False ?c = Some s7"
          by (auto simp: ThreatManager_addThreat_zero split: if_splits)
        then show ?thesis using c(1) Suc.IH by blast
      qed
      have "new_address s \<in> set (allocated ?c)"
        using c(1,2) by (simp add: consistent_def)
      then have "new_address s \<in> tracked s7"
        using c7 by (auto simp: consistent_def)
      then have "consistent (setOnlineOfflineState w (new_address s) False s7)"
        using c7 consistent_setOnlineOfflineState by blast
      then show ?thesis
        unfolding s' using c7 c(3) by (auto simp: setOnlineOfflineState_fields)
    qed
  qed
qed

lemma consistent_ThreatManager_addThreat:
  assumes "ThreatManager_addThreat n w victim threat crit schoolMask threatSpell assist s = Some s'"
    and "consistent s"
  shows "consistent s'"
  using ThreatManager_addThreat_calls [OF assms(1)] assms(2) consistent_addThreatDirectly
  by blast

lemma consistent_addThreatPercent:
  "consistent s \<Longrightarrow> consistent (addThreatPercent w p pct s)"
  by (simp add: addThreatPercent_def consistent_HostileReference_addThreat)

lemma consistent_modifyThreatPercent:
  "consistent s \<Longrightarrow> consistent (modifyThreatPercent w victim pct s)"
  by (simp add: modifyThreatPercent_def consistent_removeReference consistent_addThreatPercent
      split: option.splits)

lemma consistent_removeAll_loop_aux:
  assumes "removeAll_loop w s = Some s'"
  shows "consistent s \<longrightarrow> consistent s'"
proof (rule removeAll_loop.raw_induct
    [where P = "\<lambda>w s s'. consistent s \<longrightarrow> consistent s'", OF _ assms])
  fix f w s s'
  assume ih: "\<And>w s s'. f w s = Some s' \<Longrightarrow> consistent s \<longrightarrow> consistent s'"
    and st: "(case iThreatList s of [] \<Rightarrow> Some s
            | ref # x \<Rightarrow> f w (delete_ref ref (removeReference w ref s))) = Some s'"
  show "consistent s \<longrightarrow> consistent s'"
  proof (cases "iThreatList s")
    case Nil
    then show ?thesis using st by simp
  next
    case (Cons p rest)
    then have "f w (delete_ref p (removeReference w p s)) = Some s'" using st by simp
    from ih [OF this] show ?thesis by (simp add: consistent_removeReference)
  qed
qed

lemma consistent_fold_addThreatPercent:
  "consistent s \<Longrightarrow> consistent (fold (\<lambda>itr. addThreatPercent w itr pct) xs s)"
  by (induction xs arbitrary: s) (simp_all add: consistent_addThreatPercent)

lemma consistent_modifyAllThreatPercent:
  "consistent s \<Longrightarrow> modifyAllThreatPercent w pct s = Some s' \<Longrightarrow> consistent s'"
  using consistent_removeAll_loop_aux
  by (auto simp: modifyAllThreatPercent_def consistent_fold_addThreatPercent split: if_splits)

lemma distinct_insort_refs:
  "distinct (insort_refs before x ys) \<longleftrightarrow> x \<notin> set ys \<and> distinct ys"
  by (induction ys) (auto simp: set_insort_refs)

lemma distinct_sort_refs_aux:
  "distinct (foldl (\<lambda>acc x. insort_refs before x acc) acc xs) \<longleftrightarrow> distinct (acc @ xs)"
  by (induction xs arbitrary: acc) (auto simp: distinct_insort_refs set_insort_refs)

lemma distinct_sort_refs: "distinct (sort_refs before xs) \<longleftrightarrow> distinct xs"
  by (simp add: sort_refs_def distinct_sort_refs_aux)

lemma consistent_update:
  assumes "consistent s" and "update w force isPlayer s = Inr s'"
  shows "consistent s'"
proof -
  have f: "refs s' = refs s" "offlineThreatList s' = offlineThreatList s"
    "allocated s' = allocated s" "set (iThreatList s') = set (iThreatList s)"
    "distinct (iThreatList s') \<longleftrightarrow> distinct (iThreatList s)"
    using assms(2)
    by (auto simp: update_def set_sort_refs distinct_sort_refs split: if_splits)
  have t: "tracked s' = tracked s" using f by (simp add: tracked_def)
  show ?thesis
    using assms(1) unfolding consistent_def t f(1,2,3)
    by (simp add: f(4,5))
qed

lemma consistent_getHostileTarget:
  assumes "consistent s" and "getHostileTarget w s = Inr (target, s')"
  shows "consistent s'"
proof -
  obtain s1 nv where u: "update w (IsIgnoringRangedTargets w) (ownerIsPlayer w) s = Inr s1"
    and s': "s' = setCurrentVictim nv s1"
    using assms(2)
    by (auto simp: getHostileTarget_def UpdateContainers_def Let_def split: sum.splits)
  have "consistent s1" using assms(1) u by (rule consistent_update)
  then show ?thesis
    unfolding s' using consistent_unchanged unchanged_sets_simple(3) by blast
qed

lemma ThreatContainer_clearReferences_fields:
  "iThreatList (ThreatContainer_clearReferences xs s) = iThreatList s"
  "offlineThreatList (ThreatContainer_clearReferences xs s) = offlineThreatList s"
  "set (allocated (ThreatContainer_clearReferences xs s)) = set (allocated s) - set xs"
  unfolding ThreatContainer_clearReferences_def
  by (induction xs arbitrary: s) (auto simp: delete_ref_def unlink_def upd_ref_def)

lemma consistent_clearReferences:
  "consistent s \<Longrightarrow> consistent (ThreatManager_clearReferences ms s)"
  by (auto simp: ThreatManager_clearReferences_def Let_def consistent_def tracked_def
      ThreatContainer_clearReferences_fields)

lemma consistent_ClearAllThreat:
  "consistent s \<Longrightarrow> consistent (ClearAllThreat w ms s)"
  using consistent_unchanged [OF _ unchanged_sets_simple(2)]
  by (simp add: ClearAllThreat_def consistent_clearReferences)

lemma unchanged_sets_TauntUpdate_loop:
  "TauntUpdate_loop w m xs s = Inr s' \<Longrightarrow> unchanged_sets s s'"
proof (induction xs arbitrary: s)
  case Nil
  then show ?case by (simp add: unchanged_sets_refl)
next
  case (Cons x xs)
  from Cons.prems have "\<exists>t. TauntUpdate_loop w m xs t = Inr s' \<and> unchanged_sets s t"
    by (auto simp: unchanged_sets_refl unchanged_sets_simple split: if_splits option.splits)
  then show ?case using Cons.IH unchanged_sets_trans by blast
qed

lemma unchanged_sets_TauntUpdate:
  "TauntUpdate w s = Inr s' \<Longrightarrow> unchanged_sets s s'"
  using unchanged_sets_trans [OF _ unchanged_sets_simple(1)]
  by (auto simp: TauntUpdate_def split: sum.splits dest: unchanged_sets_TauntUpdate_loop)

lemma unchanged_sets_fixate_fold:
  "unchanged_sets s
     (fold (\<lambda>ref t. if Some ref \<noteq> fixateRef \<and> m_tauntState (refs t ref) = STATE_FIXATED
                     then SetTauntState ref STATE_NONE t else t) xs s)"
proof (induction xs arbitrary: s)
  case Nil
  show ?case by (simp add: unchanged_sets_refl)
next
  case (Cons x xs)
  show ?case
    using unchanged_sets_trans [OF _ Cons.IH] unchanged_sets_simple(4) unchanged_sets_refl
    by simp
qed

lemma unchanged_sets_FixateTarget:
  assumes "FixateTarget w victim s = Inr s'"
  shows "unchanged_sets s s'"
proof -
  let ?fixateRef = "getReferenceByTarget (refs s) (iThreatList s) victim"
  let ?s1 = "case ?fixateRef of Some p \<Rightarrow> SetTauntState p STATE_FIXATED s | None \<Rightarrow> s"
  let ?s2 = "fold (\<lambda>ref t. if Some ref \<noteq> ?fixateRef \<and> m_tauntState (refs t ref) = STATE_FIXATED
                             then SetTauntState ref STATE_NONE t else t) (iThreatList ?s1) ?s1"
  have 1: "unchanged_sets s ?s1"
    by (simp add: unchanged_sets_refl unchanged_sets_simple split: option.splits)
  have 2: "unchanged_sets ?s1 ?s2" by (rule unchanged_sets_fixate_fold)
  have "TauntUpdate w ?s2 = Inr s'" using assms by (simp add: FixateTarget_def Let_def)
  then have "unchanged_sets ?s2 s'" by (rule unchanged_sets_TauntUpdate)
  then show ?thesis using 1 2 unchanged_sets_trans by blast
qed

lemma unchanged_sets_setCurrentVictimByTarget:
  "unchanged_sets s (setCurrentVictimByTarget target s)"
  by (simp add: setCurrentVictimByTarget_def unchanged_sets_refl unchanged_sets_simple
      split: option.splits)

lemma unchanged_sets_isNeedUpdateToClient:
  "unchanged_sets s (snd (isNeedUpdateToClient ms time s))"
  by (simp add: isNeedUpdateToClient_def unchanged_sets_refl unchanged_sets_simple)

lemma consistent_remove_fold:
  "consistent s \<Longrightarrow> consistent (fold (\<lambda>ref t. delete_ref ref (removeReference w ref t)) xs s)"
  by (induction xs arbitrary: s) (simp_all add: consistent_removeReference)

lemma consistent_DeleteOutOfRangeReferences:
  "consistent s \<Longrightarrow> consistent (DeleteOutOfRangeReferences w s)"
  by (simp add: DeleteOutOfRangeReferences_def Let_def consistent_remove_fold)

lemma unchanged_sets_SetTargetSuppressed:
  "unchanged_sets s (SetTargetSuppressed w target s)"
  using unchanged_sets_trans [OF unchanged_sets_SetHostileState unchanged_sets_simple(5)]
  by (simp add: SetTargetSuppressed_def unchanged_sets_refl split: option.splits)

lemma unchanged_sets_setAccessibleState:
  "unchanged_sets s (setAccessibleState w p b s)"
  by (simp add: setAccessibleState_def fireStatusChanged_def processThreatEvent_def
      unchanged_sets_refl unchanged_sets_simple)

lemma unchanged_sets_fadeout:
  "unchanged_sets s (setFadeoutThreatReduction w p v s)"
  "unchanged_sets s (resetFadeoutThreatReduction w p s)"
  using unchanged_sets_trans [OF unchanged_sets_simple(6) unchanged_sets_HostileReference_addThreat]
    unchanged_sets_trans [OF unchanged_sets_HostileReference_addThreat unchanged_sets_simple(6)]
  by (simp_all add: setFadeoutThreatReduction_def resetFadeoutThreatReduction_def Let_def)

lemma consistent_updateOnlineStatus:
  assumes "consistent s" and "p \<in> tracked s" and "updateOnlineStatus w p s = Inr s'"
  shows "consistent s'"
proof -
  define s1 where "s1 = (if \<not> isValid (refs s p) then
                    (case GetUnit w (iUnitGuid (refs s p)) of
                       Some target \<Rightarrow> link p target s
                     | None \<Rightarrow> s)
                  else s)"
  have s1: "unchanged_sets s s1"
    by (simp add: s1_def unchanged_sets_refl unchanged_sets_simple split: option.splits)
  have "\<exists>b. s' = setOnlineOfflineState w p b s1"
    using assms(3) unfolding updateOnlineStatus_def Let_def s1_def [symmetric]
    by (auto split: if_splits option.splits)
  then obtain b where s': "s' = setOnlineOfflineState w p b s1" by blast
  have "consistent s1" using assms(1) s1 by (rule consistent_unchanged)
  moreover have "p \<in> tracked s1" using assms(2) s1 by (simp add: unchanged_sets_def tracked_def)
  ultimately show ?thesis unfolding s' by (rule consistent_setOnlineOfflineState)
qed

lemma reachable_consistent: "reachable s \<Longrightarrow> consistent s"
proof (induction rule: reachable.induct)
  case (constructed ms)
  show ?case by (simp add: consistent_def tracked_def ThreatManager_new_def)
next
  case (addThreat s fuel w victim threat crit schoolMask threatSpell assist s')
  then show ?case using consistent_ThreatManager_addThreat by blast
next
  case (modifyThreatPercent s w victim pct)
  then show ?case by (simp add: consistent_modifyThreatPercent)
next
  case (modifyAllThreatPercent s w pct s')
  then show ?case using consistent_modifyAllThreatPercent by blast
next
  case (getHostileTarget s w target s')
  then show ?case using consistent_getHostileTarget by blast
next
  case (ClearAllThreat s w ms)
  then show ?case by (simp add: consistent_ClearAllThreat)
next
  case (clearReferences s ms)
  then show ?case by (simp add: consistent_clearReferences)
next
  case (TauntUpdate s w s')
  then show ?case using consistent_unchanged unchanged_sets_TauntUpdate by blast
next
  case (FixateTarget s w victim s')
  then show ?case using consistent_unchanged unchanged_sets_FixateTarget by blast
next
  case (setCurrentVictimByTarget s target)
  then show ?case using consistent_unchanged unchanged_sets_setCurrentVictimByTarget by blast
next
  case (isNeedUpdateToClient s ms time)
  then show ?case using consistent_unchanged unchanged_sets_isNeedUpdateToClient by blast
next
  case (DeleteOutOfRangeReferences s w)
  then show ?case by (simp add: consistent_DeleteOutOfRangeReferences)
next
  case (SetTargetSuppressed s w target)
  then show ?case using consistent_unchanged unchanged_sets_SetTargetSuppressed by blast
next
  case (ref_addThreat s p w d)
  then show ?case by (simp add: consistent_HostileReference_addThreat)
next
  case (ref_updateOnlineStatus s p w s')
  then have "p \<in> tracked s" by (simp add: consistent_def)
  then show ?case using ref_updateOnlineStatus consistent_updateOnlineStatus by blast
next
  case (ref_setOnlineOfflineState s p w b)
  then have "p \<in> tracked s" by (simp add: consistent_def)
  then show ?case using ref_setOnlineOfflineState consistent_setOnlineOfflineState by blast
next
  case (ref_setAccessibleState s p w b)
  then show ?case using consistent_unchanged unchanged_sets_setAccessibleState by blast
next
  case (ref_SetHostileState s p w state)
  then show ?case by (simp add: consistent_SetHostileState)
next
  case (ref_removeReference s p w)
  then show ?case by (simp add: consistent_removeReference)
next
  case (ref_setFadeoutThreatReduction s p w v)
  then show ?case using consistent_unchanged unchanged_sets_fadeout(1) by blast
next
  case (ref_resetFadeoutThreatReduction s p w)
  then show ?case using consistent_unchanged unchanged_sets_fadeout(2) by blast
qed

lemma consistent_wf_sets: "consistent s \<Longrightarrow> wf_sets s"
  by (simp add: consistent_def wf_sets_def)

lemma reachable_wf_sets: "reachable s \<Longrightarrow> wf_sets s"
  using reachable_consistent consistent_wf_sets by blast

lemma reachable_members_linked_online:
  "reachable s \<Longrightarrow> q \<in> set (iThreatList s) \<Longrightarrow> iRefFrom (refs s q) \<and> m_online (refs s q)"
  using reachable_consistent [of s] by (simp add: consistent_def tracked_def)

end
